theory Spec2Isabelle
  imports
    Complex_Main
    "HOL-Library.Multiset"
    "HOL-Library.Char_ord"
    "HOL-Library.List_Lexorder"
begin

section \<open>Finance tracker: transactions, statistics, ownership\<close>

text \<open>
  The repository holds two near-duplicate implementations of the transaction routes.
  The \<^emph>\<open>first\<close> is \<^verbatim>\<open>finance tracker/server/routes/transactions.js\<close>, which relies on
  the middleware of \<^verbatim>\<open>middleware/auth.js\<close> (\<^verbatim>\<open>verifyTransactionOwnership\<close>). The
  \<^emph>\<open>second\<close> is the unnamed routes file (\<^verbatim>\<open>part_001\<close>), which validates and checks
  ownership inline. Definitions of the first carry the suffix \<open>1\<close>, those of the second
  the suffix \<open>2\<close>; code that both share verbatim has one definition.
\<close>

subsection \<open>Data model\<close>

text \<open>
  A stored transaction, after the schema \<^verbatim>\<open>transactionSchema\<close>. Amounts are JavaScript
  Numbers; the model takes them as exact rationals, so the rounding of binary floating
  point is outside the model. A date is the time value of a JavaScript \<^verbatim>\<open>Date\<close>:
  milliseconds since the epoch, UTC. The owner field is \<^verbatim>\<open>userId\<close> in the schema and in
  the second implementation; the first implementation and the middleware read the same
  field under the name \<^verbatim>\<open>user\<close>. The field \<^verbatim>\<open>note\<close> is called \<open>txn_note\<close> here, and
  \<^verbatim>\<open>_id\<close> is \<open>tid\<close>.
\<close>

type_synonym user_id = nat
type_synonym txn_id = nat
type_synonym jsdate = int

record transaction =
  tid :: txn_id
  userId :: user_id
  type :: string
  amount :: rat
  category :: string
  txn_note :: "string option"
  date :: jsdate
  createdAt :: jsdate

text \<open>The HTTP outcomes the routes produce besides success.\<close>

datatype error = BadRequest | Unauthorized | Forbidden | NotFound | InternalError

subsection \<open>Summary (both implementations)\<close>

text \<open>
  \<^verbatim>\<open>transactions.reduce((acc, t) => { if (t.type === 'income') acc.totalIncome += t.amount;
  else acc.totalExpense += t.amount; return acc }, { totalIncome: 0, totalExpense: 0 })\<close>
  followed by \<^verbatim>\<open>summary.netBalance = summary.totalIncome - summary.totalExpense\<close>.
\<close>

record summary_acc =
  totalIncome :: rat
  totalExpense :: rat

record summary_t = summary_acc +
  netBalance :: rat

definition summary_step :: "summary_acc \<Rightarrow> transaction \<Rightarrow> summary_acc" where
  "summary_step acc t =
     (if type t = ''income''
      then acc\<lparr>totalIncome := totalIncome acc + amount t\<rparr>
      else acc\<lparr>totalExpense := totalExpense acc + amount t\<rparr>)"

definition summary :: "transaction list \<Rightarrow> summary_t" where
  "summary transactions =
     (let acc = foldl summary_step \<lparr>totalIncome = 0, totalExpense = 0\<rparr> transactions
      in \<lparr>totalIncome = totalIncome acc, totalExpense = totalExpense acc,
          netBalance = totalIncome acc - totalExpense acc\<rparr>)"

text \<open>Sums of the amounts of one type over a list of transactions.\<close>

definition amounts_of :: "(transaction \<Rightarrow> bool) \<Rightarrow> transaction list \<Rightarrow> rat" where
  "amounts_of P ts = sum_list (map amount (filter P ts))"

definition is_income :: "transaction \<Rightarrow> bool" where
  "is_income t = (type t = ''income'')"

definition is_expense :: "transaction \<Rightarrow> bool" where
  "is_expense t = (type t = ''expense'')"

text \<open>The schema's \<^verbatim>\<open>enum: ['income', 'expense']\<close> on \<^verbatim>\<open>type\<close>.\<close>

definition type_in_enum :: "transaction \<Rightarrow> bool" where
  "type_in_enum t = (type t = ''income'' \<or> type t = ''expense'')"

subsection \<open>JavaScript objects used as dictionaries\<close>

text \<open>
  The aggregations use a plain object \<^verbatim>\<open>{}\<close> as a dictionary from strings. Such an object
  has its own properties, kept in creation order, and inherits the members of
  \<^verbatim>\<open>Object.prototype\<close>: a read \<^verbatim>\<open>acc[k]\<close> of a key that is not an own property
  returns the inherited member when \<open>k\<close> names one, and \<^verbatim>\<open>undefined\<close> otherwise.
  An object is the list of its own properties.
\<close>

type_synonym 'v obj = "(string \<times> 'v) list"

definition Object_prototype_keys :: "string list" where
  "Object_prototype_keys =
     [''constructor'', ''__defineGetter__'', ''__defineSetter__'', ''hasOwnProperty'',
      ''__lookupGetter__'', ''__lookupSetter__'', ''isPrototypeOf'',
      ''propertyIsEnumerable'', ''toString'', ''valueOf'', ''__proto__'',
      ''toLocaleString'']"

definition inherited :: "string \<Rightarrow> bool" where
  "inherited k = (k \<in> set Object_prototype_keys)"

definition has_own :: "'v obj \<Rightarrow> string \<Rightarrow> bool" where
  "has_own acc k = (k \<in> set (map fst acc))"

text \<open>
  \<^verbatim>\<open>!acc[k]\<close> is false exactly when \<open>truthy_at acc k\<close>: the accumulators below store
  objects only, which are truthy, and every inherited member is a function or an object.
\<close>

definition truthy_at :: "'v obj \<Rightarrow> string \<Rightarrow> bool" where
  "truthy_at acc k = (has_own acc k \<or> inherited k)"

text \<open>\<^verbatim>\<open>acc[k] = v\<close>: an own property keeps its place, a new one is created last.\<close>

fun obj_set :: "'v obj \<Rightarrow> string \<Rightarrow> 'v \<Rightarrow> 'v obj" where
  "obj_set [] k v = [(k, v)]"
| "obj_set ((k', v') # acc) k v =
     (if k' = k then (k, v) # acc else (k', v') # obj_set acc k v)"

text \<open>
  \<^verbatim>\<open>acc[k].field += x\<close>: the object stored under \<open>k\<close> is changed in place. When \<open>k\<close> is
  not an own property the object changed is the inherited member, which belongs to
  \<^verbatim>\<open>Object.prototype\<close> and not to \<open>acc\<close>: the own properties stay as they are.
\<close>

fun obj_modify :: "'v obj \<Rightarrow> string \<Rightarrow> ('v \<Rightarrow> 'v) \<Rightarrow> 'v obj" where
  "obj_modify [] k f = []"
| "obj_modify ((k', v') # acc) k f =
     (if k' = k then (k', f v') # acc else (k', v') # obj_modify acc k f)"

text \<open>
  \<^verbatim>\<open>Object.entries\<close> lists the own properties: first the keys that are array indices
  (canonical decimal numerals below \<open>2^32 - 1\<close>) in ascending numeric order, then the
  other keys in creation order.
\<close>

definition is_digit :: "char \<Rightarrow> bool" where
  "is_digit c = (c \<in> set ''0123456789'')"

definition decimal_val :: "string \<Rightarrow> int" where
  "decimal_val s = foldl (\<lambda>n c. 10 * n + (of_char c - 48)) 0 s"

definition is_array_index :: "string \<Rightarrow> bool" where
  "is_array_index k =
     (k \<noteq> [] \<and> list_all is_digit k \<and> (k = ''0'' \<or> hd k \<noteq> CHR ''0'')
      \<and> decimal_val k < 4294967295)"

definition Object_entries :: "'v obj \<Rightarrow> (string \<times> 'v) list" where
  "Object_entries acc =
     sort_key (\<lambda>p. decimal_val (fst p)) (filter (\<lambda>p. is_array_index (fst p)) acc)
     @ filter (\<lambda>p. \<not> is_array_index (fst p)) acc"

text \<open>
  A key is plain when neither of the two special cases applies to it.
\<close>

definition plain_key :: "string \<Rightarrow> bool" where
  "plain_key k = (\<not> inherited k \<and> \<not> is_array_index k)"

subsection \<open>Sorting arrays\<close>

text \<open>
  \<^verbatim>\<open>Array.prototype.sort(cmp)\<close> is stable (ECMAScript 2019): \<open>a\<close> comes before \<open>b\<close> when
  \<open>cmp a b < 0\<close>, and elements that compare equal keep their order. The model inserts
  from the right end of the array.
\<close>

fun sort_insert :: "('a \<Rightarrow> 'a \<Rightarrow> 'c::{zero,ord}) \<Rightarrow> 'a \<Rightarrow> 'a list \<Rightarrow> 'a list" where
  "sort_insert cmp x [] = [x]"
| "sort_insert cmp x (y # ys) =
     (if cmp x y \<le> 0 then x # y # ys else y # sort_insert cmp x ys)"

definition Array_sort :: "('a \<Rightarrow> 'a \<Rightarrow> 'c::{zero,ord}) \<Rightarrow> 'a list \<Rightarrow> 'a list" where
  "Array_sort cmp xs = foldr (sort_insert cmp) xs []"

text \<open>
  \<^verbatim>\<open>a.localeCompare(b)\<close> on month keys. The keys consist of decimal digits, hyphens and
  (for years beyond 9999 in the first implementation) a plus sign; on digits and hyphens
  the collation order is the order of the character codes, which is the lexicographic
  order of \<^typ>\<open>string\<close> taken here.
\<close>

definition localeCompare :: "string \<Rightarrow> string \<Rightarrow> int" where
  "localeCompare a b = (if a < b then - 1 else if a = b then 0 else 1)"

subsection \<open>Dates and month keys\<close>

text \<open>
  The time value of a date is split into a civil year and month as ECMAScript does
  (\<open>Day\<close>, \<open>YearFromTime\<close>, \<open>MonthFromTime\<close>; months count from 0), in the proleptic
  Gregorian calendar.
\<close>

definition msPerDay :: int where
  "msPerDay = 86400000"

definition Day :: "jsdate \<Rightarrow> int" where
  "Day t = t div msPerDay"

definition civil_from_days :: "int \<Rightarrow> int \<times> int" where
  "civil_from_days z0 =
     (let z = z0 + 719468;
          era = z div 146097;
          doe = z - era * 146097;
          yoe = (doe - doe div 1460 + doe div 36524 - doe div 146096) div 365;
          doy = doe - (365 * yoe + yoe div 4 - yoe div 100);
          mp = (5 * doy + 2) div 153;
          m = (if mp < 10 then mp + 3 else mp - 9);
          y = yoe + era * 400
      in (if m \<le> 2 then y + 1 else y, m))"

definition YearFromTime :: "jsdate \<Rightarrow> int" where
  "YearFromTime t = fst (civil_from_days (Day t))"

definition MonthFromTime :: "jsdate \<Rightarrow> int" where
  "MonthFromTime t = snd (civil_from_days (Day t)) - 1"

text \<open>
  \<^verbatim>\<open>getFullYear\<close> and \<^verbatim>\<open>getMonth\<close> read the date in the server's local time zone:
  \<open>tza t\<close> is the zone's offset from UTC, in milliseconds, at the instant \<open>t\<close>.
\<close>

definition getFullYear :: "(jsdate \<Rightarrow> int) \<Rightarrow> jsdate \<Rightarrow> int" where
  "getFullYear tza t = YearFromTime (t + tza t)"

definition getMonth :: "(jsdate \<Rightarrow> int) \<Rightarrow> jsdate \<Rightarrow> int" where
  "getMonth tza t = MonthFromTime (t + tza t)"

text \<open>Numbers as text: \<^verbatim>\<open>String(n)\<close> of an integer, \<^verbatim>\<open>padStart\<close>, and fixed-width fields.\<close>

definition digit_char :: "nat \<Rightarrow> char" where
  "digit_char n = char_of (48 + n)"

fun decimal :: "nat \<Rightarrow> string" where
  "decimal n = (if n < 10 then [digit_char n] else decimal (n div 10) @ [digit_char (n mod 10)])"

definition String_of_int :: "int \<Rightarrow> string" where
  "String_of_int i = (if i < 0 then CHR ''-'' # decimal (nat (- i)) else decimal (nat i))"

definition padStart :: "nat \<Rightarrow> char \<Rightarrow> string \<Rightarrow> string" where
  "padStart n c s = replicate (n - length s) c @ s"

definition fixed_digits :: "nat \<Rightarrow> int \<Rightarrow> string" where
  "fixed_digits k n = map (\<lambda>i. digit_char (nat (n div 10 ^ i mod 10))) (rev [0..<k])"

text \<open>
  First implementation: \<^verbatim>\<open>transaction.date.toISOString().slice(0, 7)\<close>. The ISO text
  starts with the UTC year, four digits for the years 0 to 9999 and a sign with six
  digits otherwise, then a hyphen and the two-digit month; only this part of the text
  is modelled, and it is never shorter than seven characters.
\<close>

definition toISOString_year :: "int \<Rightarrow> string" where
  "toISOString_year y =
     (if 0 \<le> y \<and> y \<le> 9999 then fixed_digits 4 y
      else (if y < 0 then CHR ''-'' else CHR ''+'') # fixed_digits 6 \<bar>y\<bar>)"

definition toISOString_year_month :: "jsdate \<Rightarrow> string" where
  "toISOString_year_month t =
     toISOString_year (YearFromTime t) @ ''-'' @ fixed_digits 2 (MonthFromTime t + 1)"

definition month_key1 :: "jsdate \<Rightarrow> string" where
  "month_key1 d = take 7 (toISOString_year_month d)"

text \<open>
  Second implementation:
  \<^verbatim>\<open>`${date.getFullYear()}-${String(date.getMonth() + 1).padStart(2, '0')}`\<close>.
\<close>

definition month_key2 :: "(jsdate \<Rightarrow> int) \<Rightarrow> jsdate \<Rightarrow> string" where
  "month_key2 tza d =
     String_of_int (getFullYear tza d) @ ''-''
     @ padStart 2 (CHR ''0'') (String_of_int (getMonth tza d + 1))"

subsection \<open>Category breakdown\<close>

text \<open>The accumulator objects \<^verbatim>\<open>{ income: 0, expense: 0 }\<close>.\<close>

record totals =
  income :: rat
  expense :: rat

text \<open>
  Second implementation, \<^verbatim>\<open>categoryStats\<close>:
  \<^verbatim>\<open>if (!acc[category]) acc[category] = { income: 0, expense: 0 };
  if (type === 'income') acc[category].income += amount; else acc[category].expense += amount\<close>.
\<close>

definition categoryStats_step :: "totals obj \<Rightarrow> transaction \<Rightarrow> totals obj" where
  "categoryStats_step acc t =
     (let acc1 = (if \<not> truthy_at acc (category t)
                  then obj_set acc (category t) \<lparr>income = 0, expense = 0\<rparr> else acc)
      in if type t = ''income''
         then obj_modify acc1 (category t) (\<lambda>d. d\<lparr>income := income d + amount t\<rparr>)
         else obj_modify acc1 (category t) (\<lambda>d. d\<lparr>expense := expense d + amount t\<rparr>))"

definition categoryStats :: "transaction list \<Rightarrow> totals obj" where
  "categoryStats transactions = foldl categoryStats_step [] transactions"

text \<open>
  The records \<^verbatim>\<open>{ category, income, expense, total }\<close>; the field \<^verbatim>\<open>category\<close> is
  \<open>r_category\<close> here. \<open>categoryData2\<close> is the array as \<^verbatim>\<open>Object.entries(...).map(...)\<close>
  creates it.
\<close>

record category_record = totals +
  r_category :: string
  total :: rat

definition categoryData2 :: "transaction list \<Rightarrow> category_record list" where
  "categoryData2 transactions =
     map (\<lambda>(c, d). \<lparr>income = income d, expense = expense d, r_category = c,
                     total = income d + expense d\<rparr>)
         (Object_entries (categoryStats transactions))"

text \<open>
  First implementation: only the expenses are grouped,
  \<^verbatim>\<open>acc[category] = (acc[category] || 0) + transaction.amount\<close>, and the records are
  \<^verbatim>\<open>{ category, expense }\<close>. The value read is a number for an own property that holds
  one; for a key that is no own property but names a member of \<^verbatim>\<open>Object.prototype\<close> it
  is that member, and \<^verbatim>\<open>+\<close> then concatenates text: \<open>Str\<close> stands for such a string,
  whose characters are not modelled. Assigning a string to \<^verbatim>\<open>__proto__\<close> creates no
  property.
\<close>

datatype jsval = Num rat | Str

definition categoryData_step1 :: "jsval obj \<Rightarrow> transaction \<Rightarrow> jsval obj" where
  "categoryData_step1 acc t =
     (let v = (case map_of acc (category t) of
                 Some (Num n) \<Rightarrow> Num (n + amount t)
               | Some Str \<Rightarrow> Str
               | None \<Rightarrow> if inherited (category t) then Str else Num (0 + amount t))
      in if category t = ''__proto__'' then acc else obj_set acc (category t) v)"

definition categoryData1 :: "transaction list \<Rightarrow> jsval obj" where
  "categoryData1 transactions =
     foldl categoryData_step1 [] (filter (\<lambda>t. type t = ''expense'') transactions)"

record expense_record =
  e_category :: string
  e_expense :: jsval

definition formattedCategoryData1 :: "transaction list \<Rightarrow> expense_record list" where
  "formattedCategoryData1 transactions =
     map (\<lambda>(c, e). \<lparr>e_category = c, e_expense = e\<rparr>)
         (Object_entries (categoryData1 transactions))"

subsection \<open>Monthly series\<close>

text \<open>
  First implementation: the accumulators are \<^verbatim>\<open>{ income: 0, expense: 0, balance: 0 }\<close>,
  the balance is recomputed after every transaction, and the records
  \<^verbatim>\<open>{ month, ...data }\<close> are sorted by \<^verbatim>\<open>a.month.localeCompare(b.month)\<close>.
\<close>

record bal_sums = totals +
  balance :: rat

record month_record = bal_sums +
  month :: string

definition monthlyData_step1 :: "bal_sums obj \<Rightarrow> transaction \<Rightarrow> bal_sums obj" where
  "monthlyData_step1 acc t =
     (let m = month_key1 (date t);
          acc1 = (if \<not> truthy_at acc m
                  then obj_set acc m \<lparr>income = 0, expense = 0, balance = 0\<rparr> else acc);
          acc2 = (if type t = ''income''
                  then obj_modify acc1 m (\<lambda>d. d\<lparr>income := income d + amount t\<rparr>)
                  else obj_modify acc1 m (\<lambda>d. d\<lparr>expense := expense d + amount t\<rparr>))
      in obj_modify acc2 m (\<lambda>d. d\<lparr>balance := income d - expense d\<rparr>))"

definition monthlyData1 :: "transaction list \<Rightarrow> bal_sums obj" where
  "monthlyData1 transactions = foldl monthlyData_step1 [] transactions"

definition formattedMonthlyData1 :: "transaction list \<Rightarrow> month_record list" where
  "formattedMonthlyData1 transactions =
     Array_sort (\<lambda>a b. localeCompare (month a) (month b))
       (map (\<lambda>(m, d). \<lparr>income = income d, expense = expense d, balance = balance d,
                        month = m\<rparr>)
            (Object_entries (monthlyData1 transactions)))"

text \<open>
  Second implementation: the accumulators are \<^verbatim>\<open>{ income: 0, expense: 0 }\<close>, the entries
  are sorted by key and then mapped to
  \<^verbatim>\<open>{ month, income, expense, balance: data.income - data.expense }\<close>.
\<close>

definition monthlyStats_step :: "(jsdate \<Rightarrow> int) \<Rightarrow> totals obj \<Rightarrow> transaction \<Rightarrow> totals obj" where
  "monthlyStats_step tza acc t =
     (let monthKey = month_key2 tza (date t);
          acc1 = (if \<not> truthy_at acc monthKey
                  then obj_set acc monthKey \<lparr>income = 0, expense = 0\<rparr> else acc)
      in if type t = ''income''
         then obj_modify acc1 monthKey (\<lambda>d. d\<lparr>income := income d + amount t\<rparr>)
         else obj_modify acc1 monthKey (\<lambda>d. d\<lparr>expense := expense d + amount t\<rparr>))"

definition monthlyStats :: "(jsdate \<Rightarrow> int) \<Rightarrow> transaction list \<Rightarrow> totals obj" where
  "monthlyStats tza transactions = foldl (monthlyStats_step tza) [] transactions"

definition monthlyData2 :: "(jsdate \<Rightarrow> int) \<Rightarrow> transaction list \<Rightarrow> month_record list" where
  "monthlyData2 tza transactions =
     map (\<lambda>(m, d). \<lparr>income = income d, expense = expense d,
                     balance = income d - expense d, month = m\<rparr>)
         (Array_sort (\<lambda>a b. localeCompare (fst a) (fst b))
            (Object_entries (monthlyStats tza transactions)))"

subsection \<open>The statistics response\<close>

text \<open>First implementation: \<^verbatim>\<open>res.json({ summary, categoryData, monthlyData })\<close>.\<close>

record stats_response1 =
  res1_summary :: summary_t
  res1_categoryData :: "expense_record list"
  res1_monthlyData :: "month_record list"

definition stats_body1 :: "transaction list \<Rightarrow> stats_response1" where
  "stats_body1 transactions =
     \<lparr>res1_summary = summary transactions,
      res1_categoryData = formattedCategoryData1 transactions,
      res1_monthlyData = formattedMonthlyData1 transactions\<rparr>"

text \<open>
  Second implementation. The object passed to \<^verbatim>\<open>res.json\<close> holds the array
  \<^verbatim>\<open>categoryData\<close> by reference, and \<^verbatim>\<open>categoryData.sort(...)\<close>, evaluated for the field
  \<^verbatim>\<open>topCategories\<close> of the same object literal, sorts that array in place before
  \<^verbatim>\<open>slice(0, 5)\<close> copies its first five elements into a new array. The arrays of
  category records therefore live in a heap, addressed by their index; \<^verbatim>\<open>res.json\<close>
  serialises the object by reading the heap when the literal is complete.
\<close>

type_synonym ref = nat
type_synonym heap = "category_record list list"

definition alloc :: "category_record list \<Rightarrow> heap \<Rightarrow> ref \<times> heap" where
  "alloc xs h = (length h, h @ [xs])"

definition sort_in_place ::
  "(category_record \<Rightarrow> category_record \<Rightarrow> rat) \<Rightarrow> ref \<Rightarrow> heap \<Rightarrow> ref \<times> heap" where
  "sort_in_place cmp r h = (r, h[r := Array_sort cmp (h ! r)])"

definition Array_slice :: "nat \<Rightarrow> nat \<Rightarrow> ref \<Rightarrow> heap \<Rightarrow> ref \<times> heap" where
  "Array_slice a b r h = alloc (take (b - a) (drop a (h ! r))) h"

record trend_record =
  t_month :: string
  t_balance :: rat

record stats_object2 =
  lit_summary :: summary_t
  lit_monthlyData :: "month_record list"
  lit_categoryData :: ref
  lit_topCategories :: ref
  lit_monthlyTrend :: "trend_record list"

definition stats_literal2 :: "(jsdate \<Rightarrow> int) \<Rightarrow> transaction list \<Rightarrow> stats_object2 \<times> heap" where
  "stats_literal2 tza transactions =
     (let monthlyData = monthlyData2 tza transactions;
          (categoryData, h1) = alloc (categoryData2 transactions) [];
          (sorted, h2) = sort_in_place (\<lambda>a b. total b - total a) categoryData h1;
          (top, h3) = Array_slice 0 5 sorted h2
      in (\<lparr>lit_summary = summary transactions,
           lit_monthlyData = monthlyData,
           lit_categoryData = categoryData,
           lit_topCategories = top,
           lit_monthlyTrend =
             map (\<lambda>data. \<lparr>t_month = month data, t_balance = balance data\<rparr>) monthlyData\<rparr>,
          h3))"

record stats_response2 =
  res_summary :: summary_t
  res_monthlyData :: "month_record list"
  res_categoryData :: "category_record list"
  res_topCategories :: "category_record list"
  res_monthlyTrend :: "trend_record list"

definition res_json2 :: "stats_object2 \<times> heap \<Rightarrow> stats_response2" where
  "res_json2 oh =
     (case oh of (obj, h) \<Rightarrow>
        \<lparr>res_summary = lit_summary obj,
         res_monthlyData = lit_monthlyData obj,
         res_categoryData = h ! lit_categoryData obj,
         res_topCategories = h ! lit_topCategories obj,
         res_monthlyTrend = lit_monthlyTrend obj\<rparr>)"

definition stats_body2 :: "(jsdate \<Rightarrow> int) \<Rightarrow> transaction list \<Rightarrow> stats_response2" where
  "stats_body2 tza transactions = res_json2 (stats_literal2 tza transactions)"

subsection \<open>The grouping step in general\<close>

text \<open>
  The three grouping loops (categories in the second implementation, months in both)
  have one shape: create the accumulator \<open>z\<close> under the key unless the read of the key
  is truthy, add the amount to the income or the expense of the key's accumulator, and
  (first implementation, months) apply \<open>post\<close> to that accumulator. \<open>group_step\<close> states
  this shape once; each step function above is shown equal to an instance of it, and the
  properties of the loops are proved for \<open>group_step\<close>.
\<close>

definition group_step ::
  "(transaction \<Rightarrow> string) \<Rightarrow> 'a totals_scheme \<Rightarrow> ('a totals_scheme \<Rightarrow> 'a totals_scheme)
     \<Rightarrow> ('a totals_scheme) obj \<Rightarrow> transaction \<Rightarrow> ('a totals_scheme) obj" where
  "group_step key z post acc t =
     (let acc1 = (if \<not> truthy_at acc (key t) then obj_set acc (key t) z else acc);
          acc2 = (if type t = ''income''
                  then obj_modify acc1 (key t) (\<lambda>d. d\<lparr>income := income d + amount t\<rparr>)
                  else obj_modify acc1 (key t) (\<lambda>d. d\<lparr>expense := expense d + amount t\<rparr>))
      in obj_modify acc2 (key t) post)"

text \<open>The income and the expense an object holds under a key (zero when it holds none).\<close>

definition inc_at :: "('a totals_scheme) obj \<Rightarrow> string \<Rightarrow> rat" where
  "inc_at acc k = (case map_of acc k of None \<Rightarrow> 0 | Some d \<Rightarrow> income d)"

definition exp_at :: "('a totals_scheme) obj \<Rightarrow> string \<Rightarrow> rat" where
  "exp_at acc k = (case map_of acc k of None \<Rightarrow> 0 | Some d \<Rightarrow> expense d)"

text \<open>Every accumulator of the first implementation's months has its balance up to date.\<close>

definition balanced :: "bal_sums obj \<Rightarrow> bool" where
  "balanced acc = (\<forall>(k, d) \<in> set acc. balance d = income d - expense d)"

subsection \<open>What the monthly series is to be\<close>

text \<open>
  The specification's monthly series, stated for a list \<open>M\<close> of records, the fetched
  transactions \<open>ts\<close> and the function \<open>key\<close> that gives a date's month key: the month
  keys of \<open>M\<close> ascend strictly in the lexicographic order (so no month occurs twice),
  they are exactly the keys of the dates that occur, and the record of a month holds
  the sum of the month's income amounts, the sum of its expense amounts, and their
  difference as the balance.
\<close>

definition monthly_series_ok ::
  "(jsdate \<Rightarrow> string) \<Rightarrow> transaction list \<Rightarrow> month_record list \<Rightarrow> bool" where
  "monthly_series_ok key ts M =
     (sorted_wrt (<) (map month M)
      \<and> set (map month M) = (\<lambda>t. key (date t)) ` set ts
      \<and> (\<forall>r \<in> set M.
            income r = amounts_of (\<lambda>t. key (date t) = month r \<and> is_income t) ts
          \<and> expense r = amounts_of (\<lambda>t. key (date t) = month r \<and> is_expense t) ts
          \<and> balance r = income r - expense r))"

text \<open>
  The same with the expense transactions picked out by a predicate \<open>E\<close>: the loops
  add every transaction that is not an income to the expenses.
\<close>

definition monthly_series_by ::
  "(transaction \<Rightarrow> bool) \<Rightarrow> (jsdate \<Rightarrow> string) \<Rightarrow> transaction list \<Rightarrow> month_record list \<Rightarrow> bool" where
  "monthly_series_by E key ts M =
     (sorted_wrt (<) (map month M)
      \<and> set (map month M) = (\<lambda>t. key (date t)) ` set ts
      \<and> (\<forall>r \<in> set M.
            income r = amounts_of (\<lambda>t. key (date t) = month r \<and> is_income t) ts
          \<and> expense r = amounts_of (\<lambda>t. key (date t) = month r \<and> E t) ts
          \<and> balance r = income r - expense r))"

subsection \<open>What the category breakdown is to be\<close>

text \<open>
  The specification's breakdown, for a list \<open>C\<close> of records
  \<^verbatim>\<open>{ category, income, expense, total }\<close>: one record for each category that occurs,
  with the sums of the category's income and expense amounts and their sum as the
  total; a type that does not occur in the category has the sum zero.
\<close>

definition category_breakdown_ok :: "transaction list \<Rightarrow> category_record list \<Rightarrow> bool" where
  "category_breakdown_ok ts C =
     (distinct (map r_category C)
      \<and> set (map r_category C) = category ` set ts
      \<and> (\<forall>r \<in> set C.
            income r = amounts_of (\<lambda>t. category t = r_category r \<and> is_income t) ts
          \<and> expense r = amounts_of (\<lambda>t. category t = r_category r \<and> is_expense t) ts
          \<and> total r = income r + expense r
          \<and> (list_all (\<lambda>t. category t = r_category r \<longrightarrow> is_expense t) ts \<longrightarrow> income r = 0)
          \<and> (list_all (\<lambda>t. category t = r_category r \<longrightarrow> is_income t) ts \<longrightarrow> expense r = 0)))"

text \<open>
  What the first implementation emits instead: one record \<^verbatim>\<open>{ category, expense }\<close> for
  each category that has an expense, with the sum of the category's expense amounts.
\<close>

definition expense_breakdown_ok :: "transaction list \<Rightarrow> expense_record list \<Rightarrow> bool" where
  "expense_breakdown_ok ts C =
     (distinct (map e_category C)
      \<and> set (map e_category C) = category ` set (filter is_expense ts)
      \<and> (\<forall>r \<in> set C.
            e_expense r = Num (amounts_of (\<lambda>t. category t = e_category r \<and> is_expense t) ts)))"

text \<open>No category label names a member of \<^verbatim>\<open>Object.prototype\<close>.\<close>

definition plain_categories :: "transaction list \<Rightarrow> bool" where
  "plain_categories ts = list_all (\<lambda>t. \<not> inherited (category t)) ts"

text \<open>Auxiliary notions for the proofs about objects.\<close>

definition obj_sum :: "('v \<Rightarrow> rat) \<Rightarrow> 'v obj \<Rightarrow> rat" where
  "obj_sum g acc = sum_list (map (\<lambda>p. g (snd p)) acc)"

definition num_of :: "jsval \<Rightarrow> rat" where
  "num_of v = (case v of Num n \<Rightarrow> n | Str \<Rightarrow> 0)"

definition num_at :: "jsval obj \<Rightarrow> string \<Rightarrow> rat" where
  "num_at acc k = (case map_of acc k of Some v \<Rightarrow> num_of v | None \<Rightarrow> 0)"

definition all_num :: "jsval obj \<Rightarrow> bool" where
  "all_num acc = list_all (\<lambda>p. snd p \<noteq> Str) acc"

subsection \<open>The transaction store and the schema\<close>

text \<open>
  The collection of all users' transactions is a list, in the store's own order; the
  store keeps \<^verbatim>\<open>_id\<close> unique. A document is saved only if it passes the schema's
  validators: \<^verbatim>\<open>type\<close> is required and one of \<^verbatim>\<open>income\<close>, \<^verbatim>\<open>expense\<close>; \<^verbatim>\<open>amount\<close> is
  required with \<^verbatim>\<open>min: 0\<close>; \<^verbatim>\<open>category\<close> is required, which an empty string does not
  satisfy. The schema's setters trim \<^verbatim>\<open>category\<close> and \<^verbatim>\<open>note\<close> when they are assigned;
  \<open>trim\<close> removes ASCII white space (the other Unicode white space is not modelled).
\<close>

type_synonym store = "transaction list"

definition is_space :: "char \<Rightarrow> bool" where
  "is_space c = (c \<in> set [CHR '' '', CHR 0x09, CHR 0x0A, CHR 0x0B, CHR 0x0C, CHR 0x0D])"

definition trim :: "string \<Rightarrow> string" where
  "trim s = rev (dropWhile is_space (rev (dropWhile is_space s)))"

definition type_enum :: "string list" where
  "type_enum = [''income'', ''expense'']"

definition schema_valid :: "transaction \<Rightarrow> bool" where
  "schema_valid t = (type t \<in> set type_enum \<and> 0 \<le> amount t \<and> category t \<noteq> [])"

text \<open>
  \<^verbatim>\<open>save()\<close> of a new document inserts it and of a loaded document replaces the stored
  one; \<open>None\<close> stands for the exception that a failed validation (or a duplicate
  \<^verbatim>\<open>_id\<close>) raises, in which case nothing is written.
\<close>

definition insert_doc :: "transaction \<Rightarrow> store \<Rightarrow> store option" where
  "insert_doc doc st =
     (if schema_valid doc \<and> tid doc \<notin> set (map tid st) then Some (st @ [doc]) else None)"

definition replace_doc :: "transaction \<Rightarrow> store \<Rightarrow> store" where
  "replace_doc doc st = map (\<lambda>t. if tid t = tid doc then doc else t) st"

definition save_doc :: "transaction \<Rightarrow> store \<Rightarrow> store option" where
  "save_doc doc st = (if schema_valid doc then Some (replace_doc doc st) else None)"

definition findById :: "store \<Rightarrow> txn_id \<Rightarrow> transaction option" where
  "findById st i = find (\<lambda>t. tid t = i) st"

text \<open>\<^verbatim>\<open>findOne({ _id: id, userId: user })\<close>.\<close>

definition findOne :: "store \<Rightarrow> txn_id \<Rightarrow> user_id \<Rightarrow> transaction option" where
  "findOne st i user = find (\<lambda>t. tid t = i \<and> userId t = user) st"

definition delete_by_id :: "txn_id \<Rightarrow> store \<Rightarrow> store" where
  "delete_by_id i st = filter (\<lambda>t. tid t \<noteq> i) st"

subsection \<open>Request bodies\<close>

text \<open>
  \<^verbatim>\<open>req.body\<close>: a field is absent (\<open>None\<close>) or present; a present field is taken to be of
  the kind the schema expects (text for \<^verbatim>\<open>type\<close>, \<^verbatim>\<open>category\<close> and \<^verbatim>\<open>note\<close>, a number
  for \<^verbatim>\<open>amount\<close>, a date for \<^verbatim>\<open>date\<close> and \<^verbatim>\<open>createdAt\<close>, a user id for the owner).
  The second implementation reads the first five fields only.
\<close>

record body =
  b_type :: "string option"
  b_amount :: "rat option"
  b_category :: "string option"
  b_note :: "string option"
  b_date :: "jsdate option"
  b_user :: "user_id option"
  b_createdAt :: "jsdate option"

subsection \<open>Ownership (middleware of the first implementation)\<close>

text \<open>
  \<^verbatim>\<open>verifyTransactionOwnership\<close>: 404 when \<^verbatim>\<open>findById\<close> finds nothing, 403 when the
  owner is not the authenticated user, else \<^verbatim>\<open>req.transaction = transaction\<close> and the
  handler runs; the result \<open>Inr t\<close> is the transaction attached to the request.
\<close>

definition verifyTransactionOwnership :: "store \<Rightarrow> user_id \<Rightarrow> txn_id \<Rightarrow> error + transaction" where
  "verifyTransactionOwnership st user i =
     (case findById st i of
        None \<Rightarrow> Inl NotFound
      | Some transaction \<Rightarrow>
          if userId transaction \<noteq> user then Inl Forbidden else Inr transaction)"

subsection \<open>Routes of the first implementation\<close>

text \<open>
  A route returns its answer, an error or the JSON body, and the store it leaves.
  \<^verbatim>\<open>GET /:id\<close> answers with \<^verbatim>\<open>req.transaction\<close>.
\<close>

definition get1 :: "user_id \<Rightarrow> txn_id \<Rightarrow> store \<Rightarrow> (error + transaction) \<times> store" where
  "get1 user i st = (verifyTransactionOwnership st user i, st)"

text \<open>
  \<^verbatim>\<open>POST /\<close>: \<^verbatim>\<open>new Transaction({ ...req.body, user: req.user._id })\<close>, \<^verbatim>\<open>save()\<close>, and
  every failure is answered by the \<^verbatim>\<open>catch\<close> with status 500. A required field that
  is absent fails the validation; \<^verbatim>\<open>date\<close> and \<^verbatim>\<open>createdAt\<close> default to now.
\<close>

definition create1 :: "jsdate \<Rightarrow> txn_id \<Rightarrow> user_id \<Rightarrow> body \<Rightarrow> store \<Rightarrow> (error + transaction) \<times> store" where
  "create1 now new_id user b st =
     (case (b_type b, b_amount b, b_category b) of
        (Some ty, Some a, Some c) \<Rightarrow>
          (let transaction =
                 \<lparr>tid = new_id, userId = user, type = ty, amount = a, category = trim c,
                  txn_note = map_option trim (b_note b),
                  date = (case b_date b of Some d \<Rightarrow> d | None \<Rightarrow> now),
                  createdAt = (case b_createdAt b of Some d \<Rightarrow> d | None \<Rightarrow> now)\<rparr>
           in case insert_doc transaction st of
                None \<Rightarrow> (Inl InternalError, st)
              | Some st' \<Rightarrow> (Inr transaction, st'))
      | _ \<Rightarrow> (Inl InternalError, st))"

text \<open>
  \<^verbatim>\<open>PUT /:id\<close>: \<^verbatim>\<open>findByIdAndUpdate(req.params.id, req.body, { new: true })\<close> sets the
  fields the body holds and runs no validator.
\<close>

definition patch1 :: "body \<Rightarrow> transaction \<Rightarrow> transaction" where
  "patch1 b t =
     t\<lparr>type := (case b_type b of Some ty \<Rightarrow> ty | None \<Rightarrow> type t),
       amount := (case b_amount b of Some a \<Rightarrow> a | None \<Rightarrow> amount t),
       category := (case b_category b of Some c \<Rightarrow> trim c | None \<Rightarrow> category t),
       txn_note := (case b_note b of Some n \<Rightarrow> Some (trim n) | None \<Rightarrow> txn_note t),
       date := (case b_date b of Some d \<Rightarrow> d | None \<Rightarrow> date t),
       userId := (case b_user b of Some u \<Rightarrow> u | None \<Rightarrow> userId t),
       createdAt := (case b_createdAt b of Some d \<Rightarrow> d | None \<Rightarrow> createdAt t)\<rparr>"

definition update1 :: "user_id \<Rightarrow> txn_id \<Rightarrow> body \<Rightarrow> store \<Rightarrow> (error + transaction) \<times> store" where
  "update1 user i b st =
     (case verifyTransactionOwnership st user i of
        Inl e \<Rightarrow> (Inl e, st)
      | Inr t \<Rightarrow> (Inr (patch1 b t), replace_doc (patch1 b t) st))"

text \<open>\<^verbatim>\<open>DELETE /:id\<close>: \<^verbatim>\<open>req.transaction.deleteOne()\<close>.\<close>

definition delete1 :: "user_id \<Rightarrow> txn_id \<Rightarrow> store \<Rightarrow> (error + unit) \<times> store" where
  "delete1 user i st =
     (case verifyTransactionOwnership st user i of
        Inl e \<Rightarrow> (Inl e, st)
      | Inr t \<Rightarrow> (Inr (), delete_by_id (tid t) st))"

subsection \<open>Routes of the second implementation\<close>

definition get2 :: "user_id \<Rightarrow> txn_id \<Rightarrow> store \<Rightarrow> (error + transaction) \<times> store" where
  "get2 user i st =
     (case findOne st i user of
        None \<Rightarrow> (Inl NotFound, st)
      | Some transaction \<Rightarrow> (Inr transaction, st))"

text \<open>
  \<^verbatim>\<open>POST /\<close>: the three checks of the handler in their order (\<^verbatim>\<open>!type || !amount ||
  !category\<close> holds for an absent field, an empty string and the amount 0), then
  \<^verbatim>\<open>save()\<close>, whose failure the \<^verbatim>\<open>catch\<close> answers with status 400.
\<close>

definition create2 :: "jsdate \<Rightarrow> txn_id \<Rightarrow> user_id \<Rightarrow> body \<Rightarrow> store \<Rightarrow> (error + transaction) \<times> store" where
  "create2 now new_id user b st =
     (case (b_type b, b_amount b, b_category b) of
        (Some ty, Some a, Some c) \<Rightarrow>
          if ty = [] \<or> a = 0 \<or> c = [] then (Inl BadRequest, st)
          else if ty \<notin> set [''income'', ''expense''] then (Inl BadRequest, st)
          else if a \<le> 0 then (Inl BadRequest, st)
          else
            (let transaction =
                   \<lparr>tid = new_id, userId = user, type = ty, amount = a, category = trim c,
                    txn_note = map_option trim (b_note b),
                    date = (case b_date b of Some d \<Rightarrow> d | None \<Rightarrow> now),
                    createdAt = now\<rparr>
             in case insert_doc transaction st of
                  None \<Rightarrow> (Inl BadRequest, st)
                | Some st' \<Rightarrow> (Inr transaction, st'))
      | _ \<Rightarrow> (Inl BadRequest, st))"

text \<open>
  \<^verbatim>\<open>PUT /:id\<close>: \<^verbatim>\<open>if (type) { ... }\<close>, \<^verbatim>\<open>if (amount !== undefined) { ... }\<close>,
  \<^verbatim>\<open>if (category) ...\<close>, \<^verbatim>\<open>if (note !== undefined) ...\<close>, \<^verbatim>\<open>if (date) ...\<close> on the loaded
  document, then \<^verbatim>\<open>save()\<close>.
\<close>

definition set_type2 :: "body \<Rightarrow> transaction \<Rightarrow> error + transaction" where
  "set_type2 b t =
     (case b_type b of
        Some ty \<Rightarrow>
          if ty \<noteq> [] then
            (if ty \<notin> set [''income'', ''expense''] then Inl BadRequest
             else Inr (t\<lparr>type := ty\<rparr>))
          else Inr t
      | None \<Rightarrow> Inr t)"

definition set_amount2 :: "body \<Rightarrow> transaction \<Rightarrow> error + transaction" where
  "set_amount2 b t =
     (case b_amount b of
        Some a \<Rightarrow> if a \<le> 0 then Inl BadRequest else Inr (t\<lparr>amount := a\<rparr>)
      | None \<Rightarrow> Inr t)"

definition set_rest2 :: "body \<Rightarrow> transaction \<Rightarrow> transaction" where
  "set_rest2 b t =
     (let t1 = (case b_category b of
                  Some c \<Rightarrow> if c \<noteq> [] then t\<lparr>category := trim c\<rparr> else t
                | None \<Rightarrow> t);
          t2 = (case b_note b of Some n \<Rightarrow> t1\<lparr>txn_note := Some (trim n)\<rparr> | None \<Rightarrow> t1)
      in (case b_date b of Some d \<Rightarrow> t2\<lparr>date := d\<rparr> | None \<Rightarrow> t2))"

definition update2 :: "user_id \<Rightarrow> txn_id \<Rightarrow> body \<Rightarrow> store \<Rightarrow> (error + transaction) \<times> store" where
  "update2 user i b st =
     (case findOne st i user of
        None \<Rightarrow> (Inl NotFound, st)
      | Some transaction \<Rightarrow>
          (case set_type2 b transaction of
             Inl e \<Rightarrow> (Inl e, st)
           | Inr t1 \<Rightarrow>
               (case set_amount2 b t1 of
                  Inl e \<Rightarrow> (Inl e, st)
                | Inr t2 \<Rightarrow>
                    (case save_doc (set_rest2 b t2) st of
                       None \<Rightarrow> (Inl BadRequest, st)
                     | Some st' \<Rightarrow> (Inr (set_rest2 b t2), st')))))"

text \<open>\<^verbatim>\<open>DELETE /:id\<close>: \<^verbatim>\<open>findOneAndDelete({ _id, userId })\<close>.\<close>

definition delete2 :: "user_id \<Rightarrow> txn_id \<Rightarrow> store \<Rightarrow> (error + unit) \<times> store" where
  "delete2 user i st =
     (case findOne st i user of
        None \<Rightarrow> (Inl NotFound, st)
      | Some transaction \<Rightarrow> (Inr (), delete_by_id (tid transaction) st))"

subsection \<open>The statistics routes: what is fetched\<close>

text \<open>
  \<^verbatim>\<open>req.query\<close> holds \<^verbatim>\<open>startDate\<close> and \<^verbatim>\<open>endDate\<close> as text or not at all; an empty
  text is falsy like an absent one. \<open>new_Date\<close> is \<^verbatim>\<open>new Date(text)\<close>, with \<open>None\<close> for
  an invalid date, which the query refuses with an exception (status 500).
\<close>

record stats_params =
  startDate :: "string option"
  endDate :: "string option"

record date_filter =
  gte :: "jsdate option"
  lte :: "jsdate option"

record find_query =
  q_user :: user_id
  q_date :: "date_filter option"

definition truthy_text :: "string option \<Rightarrow> bool" where
  "truthy_text p = (case p of None \<Rightarrow> False | Some s \<Rightarrow> s \<noteq> [])"

text \<open>
  The bound a parameter asks for: \<open>Some None\<close> when the parameter is falsy,
  \<open>Some (Some d)\<close> for a date, \<open>None\<close> when the text is no date.
\<close>

definition bound :: "(string \<Rightarrow> jsdate option) \<Rightarrow> string option \<Rightarrow> jsdate option option" where
  "bound new_Date p =
     (case p of
        None \<Rightarrow> Some None
      | Some s \<Rightarrow> if s = [] then Some None else map_option Some (new_Date s))"

definition query_matches :: "find_query \<Rightarrow> transaction \<Rightarrow> bool" where
  "query_matches q t =
     (userId t = q_user q
      \<and> (case q_date q of
           None \<Rightarrow> True
         | Some r \<Rightarrow>
             (case gte r of None \<Rightarrow> True | Some a \<Rightarrow> a \<le> date t)
             \<and> (case lte r of None \<Rightarrow> True | Some b \<Rightarrow> date t \<le> b)))"

definition Transaction_find :: "find_query \<Rightarrow> store \<Rightarrow> transaction list" where
  "Transaction_find q st = filter (query_matches q) st"

text \<open>
  Second implementation:
  \<^verbatim>\<open>if (startDate || endDate) { query.date = {}; if (startDate) query.date.$gte = ...;
  if (endDate) query.date.$lte = ... }\<close>.
\<close>

definition stats_query2 ::
  "(string \<Rightarrow> jsdate option) \<Rightarrow> user_id \<Rightarrow> stats_params \<Rightarrow> find_query option" where
  "stats_query2 new_Date user p =
     (if truthy_text (startDate p) \<or> truthy_text (endDate p) then
        (case (bound new_Date (startDate p), bound new_Date (endDate p)) of
           (Some g, Some l) \<Rightarrow> Some \<lparr>q_user = user, q_date = Some \<lparr>gte = g, lte = l\<rparr>\<rparr>
         | _ \<Rightarrow> None)
      else Some \<lparr>q_user = user, q_date = None\<rparr>)"

definition fetched2 ::
  "(string \<Rightarrow> jsdate option) \<Rightarrow> user_id \<Rightarrow> stats_params \<Rightarrow> store \<Rightarrow> error + transaction list" where
  "fetched2 new_Date user p st =
     (case stats_query2 new_Date user p of
        None \<Rightarrow> Inl InternalError
      | Some q \<Rightarrow> Inr (Transaction_find q st))"

definition stats2 ::
  "(string \<Rightarrow> jsdate option) \<Rightarrow> (jsdate \<Rightarrow> int) \<Rightarrow> user_id \<Rightarrow> stats_params \<Rightarrow> store
     \<Rightarrow> error + stats_response2" where
  "stats2 new_Date tza user p st = map_sum id (stats_body2 tza) (fetched2 new_Date user p st)"

text \<open>
  First implementation: only \<^verbatim>\<open>startDate\<close> is read from the query,
  \<^verbatim>\<open>if (startDate) query.date = { $gte: new Date(startDate) }\<close>.
\<close>

definition stats_query1 ::
  "(string \<Rightarrow> jsdate option) \<Rightarrow> user_id \<Rightarrow> stats_params \<Rightarrow> find_query option" where
  "stats_query1 new_Date user p =
     (if truthy_text (startDate p) then
        (case bound new_Date (startDate p) of
           Some g \<Rightarrow> Some \<lparr>q_user = user, q_date = Some \<lparr>gte = g, lte = None\<rparr>\<rparr>
         | None \<Rightarrow> None)
      else Some \<lparr>q_user = user, q_date = None\<rparr>)"

definition fetched1 ::
  "(string \<Rightarrow> jsdate option) \<Rightarrow> user_id \<Rightarrow> stats_params \<Rightarrow> store \<Rightarrow> error + transaction list" where
  "fetched1 new_Date user p st =
     (case stats_query1 new_Date user p of
        None \<Rightarrow> Inl InternalError
      | Some q \<Rightarrow> Inr (Transaction_find q st))"

definition stats1 ::
  "(string \<Rightarrow> jsdate option) \<Rightarrow> user_id \<Rightarrow> stats_params \<Rightarrow> store \<Rightarrow> error + stats_response1" where
  "stats1 new_Date user p st = map_sum id stats_body1 (fetched1 new_Date user p st)"

text \<open>The inclusive range with optional bounds, as the specification states it.\<close>

definition in_range :: "jsdate option \<Rightarrow> jsdate option \<Rightarrow> jsdate \<Rightarrow> bool" where
  "in_range s e d =
     ((case s of None \<Rightarrow> True | Some a \<Rightarrow> a \<le> d) \<and> (case e of None \<Rightarrow> True | Some b \<Rightarrow> d \<le> b))"

subsection \<open>Example data\<close>

text \<open>
  The specification's example: an income of 100 on 2024-01-05, an expense of 40 on
  2024-01-10 and an expense of 10 on 2024-02-01 (time values of midnight UTC).
\<close>

definition example_txn :: "txn_id \<Rightarrow> string \<Rightarrow> rat \<Rightarrow> string \<Rightarrow> jsdate \<Rightarrow> transaction" where
  "example_txn i ty a c d =
     \<lparr>tid = i, userId = 1, type = ty, amount = a, category = c, txn_note = None,
      date = d, createdAt = d\<rparr>"

definition example_transactions :: "transaction list" where
  "example_transactions =
     [example_txn 1 ''income'' 100 ''salary'' 1704412800000,
      example_txn 2 ''expense'' 40 ''food'' 1704844800000,
      example_txn 3 ''expense'' 10 ''food'' 1706745600000]"

text \<open>Two expenses of the same amount in different categories.\<close>

definition example_two_categories :: "transaction list" where
  "example_two_categories =
     [example_txn 1 ''expense'' 40 ''food'' 1704844800000,
      example_txn 2 ''expense'' 40 ''rent'' 1706745600000]"

text \<open>A store with the example's transactions of user 1 and one of user 2.\<close>

definition example_store :: store where
  "example_store =
     example_transactions
     @ [\<lparr>tid = 4, userId = 2, type = ''expense'', amount = 7, category = ''books'',
         txn_note = None, date = 1704844800000, createdAt = 1704844800000\<rparr>]"

definition empty_body :: body where
  "empty_body =
     \<lparr>b_type = None, b_amount = None, b_category = None, b_note = None, b_date = None,
      b_user = None, b_createdAt = None\<rparr>"

text \<open>A date parser that knows two texts: the last day of January 2024 and its first.\<close>

definition example_new_Date :: "string \<Rightarrow> jsdate option" where
  "example_new_Date s =
     (if s = ''2024-01-31'' then Some 1706659200000
      else if s = ''2024-01-01'' then Some 1704067200000 else None)"

section \<open>Proofs\<close>

subsection \<open>Summary\<close>

lemma amounts_of_Nil [simp]: "amounts_of P [] = 0"
  by (simp add: amounts_of_def)

lemma amounts_of_Cons:
  "amounts_of P (t # ts) = (if P t then amount t else 0) + amounts_of P ts"
  by (simp add: amounts_of_def)

lemma amounts_of_append [simp]:
  "amounts_of P (ts @ us) = amounts_of P ts + amounts_of P us"
  by (simp add: amounts_of_def)

lemma foldl_summary_step_income:
  "totalIncome (foldl summary_step acc ts) = totalIncome acc + amounts_of is_income ts"
  by (induction ts arbitrary: acc)
     (simp_all add: summary_step_def amounts_of_Cons is_income_def)

lemma foldl_summary_step_expense:
  "totalExpense (foldl summary_step acc ts) =
     totalExpense acc + amounts_of (\<lambda>t. \<not> is_income t) ts"
  by (induction ts arbitrary: acc)
     (simp_all add: summary_step_def amounts_of_Cons is_income_def)

lemma summary_totalIncome: "totalIncome (summary ts) = amounts_of is_income ts"
  by (simp add: summary_def Let_def foldl_summary_step_income)

lemma summary_totalExpense:
  "totalExpense (summary ts) = amounts_of (\<lambda>t. \<not> is_income t) ts"
  by (simp add: summary_def Let_def foldl_summary_step_expense)

lemma summary_netBalance:
  "netBalance (summary ts) = totalIncome (summary ts) - totalExpense (summary ts)"
  by (simp add: summary_def Let_def)

lemma amounts_of_cong:
  "(\<And>t. t \<in> set ts \<Longrightarrow> P t = Q t) \<Longrightarrow> amounts_of P ts = amounts_of Q ts"
  unfolding amounts_of_def by (induction ts) auto

lemma not_income_is_expense:
  "list_all type_in_enum ts \<Longrightarrow>
     amounts_of (\<lambda>t. \<not> is_income t) ts = amounts_of is_expense ts"
  by (rule amounts_of_cong)
     (auto simp: list_all_iff type_in_enum_def is_income_def is_expense_def)



subsection \<open>Objects, grouping, sorting\<close>

lemma map_fst_obj_modify [simp]: "map fst (obj_modify acc k f) = map fst acc"
  by (induction acc) auto

lemma obj_modify_id [simp]: "obj_modify acc k (\<lambda>d. d) = acc"
  by (induction acc) auto

lemma map_fst_obj_set:
  "map fst (obj_set acc k v) = (if k \<in> set (map fst acc) then map fst acc else map fst acc @ [k])"
  by (induction acc) (auto simp: rev_image_eqI)

lemma has_own_iff: "has_own acc k \<longleftrightarrow> map_of acc k \<noteq> None"
  by (simp add: has_own_def map_of_eq_None_iff)

lemma map_of_obj_modify:
  "map_of (obj_modify acc k f) k' =
     (if k' = k then map_option f (map_of acc k) else map_of acc k')"
  by (induction acc) auto

lemma map_of_obj_set:
  "map_of (obj_set acc k v) k' = (if k' = k then Some v else map_of acc k')"
  by (induction acc) auto

lemma categoryStats_step_group:
  "categoryStats_step = group_step category \<lparr>income = 0, expense = 0\<rparr> (\<lambda>d. d)"
  by (intro ext) (simp add: categoryStats_step_def group_step_def Let_def)

lemma monthlyStats_step_group:
  "monthlyStats_step tza =
     group_step (\<lambda>t. month_key2 tza (date t)) \<lparr>income = 0, expense = 0\<rparr> (\<lambda>d. d)"
  by (intro ext) (simp add: monthlyStats_step_def group_step_def Let_def)

lemma monthlyData_step1_group:
  "monthlyData_step1 =
     group_step (\<lambda>t. month_key1 (date t)) \<lparr>income = 0, expense = 0, balance = 0\<rparr>
       (\<lambda>d. d\<lparr>balance := income d - expense d\<rparr>)"
  by (intro ext) (simp add: monthlyData_step1_def group_step_def Let_def)

lemma map_fst_group_step:
  "map fst (group_step key z post acc t) =
     (if truthy_at acc (key t) then map fst acc else map fst acc @ [key t])"
  by (simp add: group_step_def Let_def map_fst_obj_set truthy_at_def has_own_def)

lemma distinct_group_step:
  "distinct (map fst acc) \<Longrightarrow> distinct (map fst (group_step key z post acc t))"
  by (simp add: map_fst_group_step truthy_at_def has_own_def)

lemma distinct_foldl_group_step:
  "distinct (map fst acc) \<Longrightarrow> distinct (map fst (foldl (group_step key z post) acc ts))"
  by (induction ts arbitrary: acc) (simp_all add: distinct_group_step)

lemma keys_foldl_group_step:
  "set (map fst (foldl (group_step key z post) acc ts)) =
     set (map fst acc) \<union> {key t |t. t \<in> set ts \<and> \<not> inherited (key t)}"
proof (induction ts arbitrary: acc)
  case Nil
  then show ?case by simp
next
  case (Cons t ts)
  have "set (map fst (group_step key z post acc t)) =
          set (map fst acc) \<union> (if inherited (key t) then {} else {key t})"
    by (auto simp: map_fst_group_step truthy_at_def has_own_def)
  then show ?case
    using Cons.IH [of "group_step key z post acc t"] by auto
qed

lemma inc_at_group_step:
  assumes "income z = 0" and "\<And>d. income (post d) = income d"
    and "has_own acc k \<or> \<not> inherited k"
  shows "inc_at (group_step key z post acc t) k =
           inc_at acc k + (if key t = k \<and> is_income t then amount t else 0)"
  using assms
  by (auto simp: inc_at_def group_step_def Let_def map_of_obj_modify map_of_obj_set
      truthy_at_def has_own_iff is_income_def map_of_eq_None_iff [symmetric]
      split: option.splits)

lemma exp_at_group_step:
  assumes "expense z = 0" and "\<And>d. expense (post d) = expense d"
    and "has_own acc k \<or> \<not> inherited k"
  shows "exp_at (group_step key z post acc t) k =
           exp_at acc k + (if key t = k \<and> \<not> is_income t then amount t else 0)"
  using assms
  by (auto simp: exp_at_def group_step_def Let_def map_of_obj_modify map_of_obj_set
      truthy_at_def has_own_iff is_income_def map_of_eq_None_iff [symmetric]
      split: option.splits)

lemma has_own_group_step:
  "has_own acc k \<Longrightarrow> has_own (group_step key z post acc t) k"
  by (simp add: has_own_def map_fst_group_step)

lemma inc_at_foldl_group_step:
  assumes "income z = 0" and "\<And>d. income (post d) = income d"
  shows "has_own acc k \<or> \<not> inherited k \<Longrightarrow>
         inc_at (foldl (group_step key z post) acc ts) k =
           inc_at acc k + amounts_of (\<lambda>t. key t = k \<and> is_income t) ts"
proof (induction ts arbitrary: acc)
  case Nil
  then show ?case by simp
next
  case (Cons t ts)
  have "has_own (group_step key z post acc t) k \<or> \<not> inherited k"
    using Cons.prems has_own_group_step by blast
  from Cons.IH [OF this] show ?case
    using Cons.prems assms by (simp add: inc_at_group_step amounts_of_Cons)
qed

lemma exp_at_foldl_group_step:
  assumes "expense z = 0" and "\<And>d. expense (post d) = expense d"
  shows "has_own acc k \<or> \<not> inherited k \<Longrightarrow>
         exp_at (foldl (group_step key z post) acc ts) k =
           exp_at acc k + amounts_of (\<lambda>t. key t = k \<and> \<not> is_income t) ts"
proof (induction ts arbitrary: acc)
  case Nil
  then show ?case by simp
next
  case (Cons t ts)
  have "has_own (group_step key z post acc t) k \<or> \<not> inherited k"
    using Cons.prems has_own_group_step by blast
  from Cons.IH [OF this] show ?case
    using Cons.prems assms by (simp add: exp_at_group_step amounts_of_Cons)
qed

lemma inc_at_entry:
  "distinct (map fst acc) \<Longrightarrow> (k, d) \<in> set acc \<Longrightarrow> inc_at acc k = income d"
  by (simp add: inc_at_def)

lemma exp_at_entry:
  "distinct (map fst acc) \<Longrightarrow> (k, d) \<in> set acc \<Longrightarrow> exp_at acc k = expense d"
  by (simp add: exp_at_def)

lemma mset_Object_entries [simp]: "mset (Object_entries acc) = mset acc"
  by (simp add: Object_entries_def)

lemma set_Object_entries [simp]: "set (Object_entries acc) = set acc"
  by (metis mset_Object_entries set_mset_mset)

lemma distinct_keys_Object_entries:
  "distinct (map fst (Object_entries acc)) = distinct (map fst acc)"
  by (rule mset_eq_imp_distinct_iff) simp

lemma Object_entries_plain:
  "(\<And>k. k \<in> set (map fst acc) \<Longrightarrow> \<not> is_array_index k) \<Longrightarrow> Object_entries acc = acc"
  by (simp add: Object_entries_def filter_empty_conv)

lemma sort_insert_insort_key:
  assumes "\<And>x y. cmp x y \<le> 0 \<longleftrightarrow> f x \<le> f y"
  shows "sort_insert cmp x ys = insort_key f x ys"
  by (induction ys) (simp_all add: assms)

lemma Array_sort_sort_key:
  assumes "\<And>x y. cmp x y \<le> 0 \<longleftrightarrow> f x \<le> f y"
  shows "Array_sort cmp xs = sort_key f xs"
proof -
  have "sort_insert cmp = insort_key f"
    by (intro ext) (rule sort_insert_insort_key [OF assms])
  then show ?thesis by (simp add: Array_sort_def sort_key_def)
qed

lemma localeCompare_le: "localeCompare a b \<le> 0 \<longleftrightarrow> a \<le> b"
  by (auto simp: localeCompare_def)

lemma sort_by_month:
  "Array_sort (\<lambda>a b. localeCompare (month a) (month b)) xs = sort_key month xs"
  by (rule Array_sort_sort_key) (rule localeCompare_le)

lemma sort_by_key:
  "Array_sort (\<lambda>a b. localeCompare (fst a) (fst b)) xs = sort_key fst xs"
  by (rule Array_sort_sort_key) (rule localeCompare_le)

lemma sort_by_total:
  "Array_sort (\<lambda>a b. total b - total a) xs = sort_key (\<lambda>r. - total r) xs"
  by (rule Array_sort_sort_key) simp

lemma sign_not_inherited:
  "CHR ''-'' \<in> set k \<or> CHR ''+'' \<in> set k \<Longrightarrow> \<not> inherited k"
  by (auto simp: inherited_def Object_prototype_keys_def)

lemma month_key2_plain: "\<not> inherited (month_key2 tza d)"
  by (rule sign_not_inherited) (simp add: month_key2_def)

lemma length_fixed_digits [simp]: "length (fixed_digits k n) = k"
  by (simp add: fixed_digits_def)

lemma month_key1_plain: "\<not> inherited (month_key1 d)"
proof (rule sign_not_inherited)
  show "CHR ''-'' \<in> set (month_key1 d) \<or> CHR ''+'' \<in> set (month_key1 d)"
    by (auto simp: month_key1_def toISOString_year_month_def toISOString_year_def)
qed

subsection \<open>Monthly series\<close>

lemma obj_modify_twice:
  "obj_modify (obj_modify acc k f) k g = obj_modify acc k (\<lambda>d. g (f d))"
  by (induction acc) auto

lemma set_obj_modify:
  "(k', d') \<in> set (obj_modify acc k f) \<Longrightarrow>
     (k', d') \<in> set acc \<or> (k' = k \<and> (\<exists>d. (k, d) \<in> set acc \<and> d' = f d))"
  by (induction acc) (auto split: if_splits)

lemma set_obj_set:
  "(k', d') \<in> set (obj_set acc k v) \<Longrightarrow> (k', d') \<in> set acc \<or> (k' = k \<and> d' = v)"
  by (induction acc) (auto split: if_splits)


lemma balanced_monthlyData_step1:
  assumes "balanced acc"
  shows "balanced (monthlyData_step1 acc t)"
proof -
  have "balance d' = income d' - expense d'"
    if "(k', d') \<in> set (monthlyData_step1 acc t)" for k' d'
    using that assms
    by (auto simp: monthlyData_step1_def Let_def obj_modify_twice balanced_def
        dest!: set_obj_modify set_obj_set split: if_splits)
  then show ?thesis by (auto simp: balanced_def)
qed

lemma balanced_monthlyData1: "balanced (monthlyData1 ts)"
proof -
  have "balanced acc \<Longrightarrow> balanced (foldl monthlyData_step1 acc ts)" for acc
    by (induction ts arbitrary: acc) (simp_all add: balanced_monthlyData_step1)
  from this [of "[]"] show ?thesis by (simp add: monthlyData1_def balanced_def)
qed

lemma group_keys_distinct:
  "distinct (map fst (foldl (group_step key z post) [] ts))"
  by (rule distinct_foldl_group_step) simp

lemma group_keys:
  "set (map fst (foldl (group_step key z post) [] ts)) =
     {key t |t. t \<in> set ts \<and> \<not> inherited (key t)}"
  using keys_foldl_group_step [of key z post "[]" ts] by simp

lemma group_entry_sums:
  assumes "income z = 0" and "expense z = 0"
    and "\<And>d. income (post d) = income d" and "\<And>d. expense (post d) = expense d"
    and "(k, d) \<in> set (foldl (group_step key z post) [] ts)"
  shows "income d = amounts_of (\<lambda>t. key t = k \<and> is_income t) ts"
    and "expense d = amounts_of (\<lambda>t. key t = k \<and> \<not> is_income t) ts"
proof -
  let ?G = "foldl (group_step key z post) [] ts"
  have "k \<in> set (map fst ?G)"
    using assms(5) by force
  then have plain: "has_own [] k \<or> \<not> inherited k"
    unfolding group_keys by blast
  have "income d = inc_at ?G k"
    using assms(5) by (simp add: inc_at_entry group_keys_distinct)
  also have "\<dots> = amounts_of (\<lambda>t. key t = k \<and> is_income t) ts"
    using inc_at_foldl_group_step [OF assms(1) assms(3) plain, of key ts]
    by (simp add: inc_at_def)
  finally show "income d = amounts_of (\<lambda>t. key t = k \<and> is_income t) ts" .
  have "expense d = exp_at ?G k"
    using assms(5) by (simp add: exp_at_entry group_keys_distinct)
  also have "\<dots> = amounts_of (\<lambda>t. key t = k \<and> \<not> is_income t) ts"
    using exp_at_foldl_group_step [OF assms(2) assms(4) plain, of key ts]
    by (simp add: exp_at_def)
  finally show "expense d = amounts_of (\<lambda>t. key t = k \<and> \<not> is_income t) ts" .
qed

lemma keyed_not_income_is_expense:
  "list_all type_in_enum ts \<Longrightarrow>
     amounts_of (\<lambda>t. P t \<and> \<not> is_income t) ts = amounts_of (\<lambda>t. P t \<and> is_expense t) ts"
  by (rule amounts_of_cong)
     (auto simp: list_all_iff type_in_enum_def is_income_def is_expense_def)

lemma strict_sorted_sort_key:
  assumes "distinct (map f xs)"
  shows "sorted_wrt (<) (map f (sort_key f xs))"
proof -
  have "mset (map f (sort_key f xs)) = mset (map f xs)"
    by simp
  then have "distinct (map f (sort_key f xs))"
    using assms mset_eq_imp_distinct_iff by blast
  then show ?thesis
    by (simp add: strict_sorted_iff)
qed

lemma monthly_series_by1:
  "monthly_series_by (\<lambda>t. \<not> is_income t) month_key1 ts (formattedMonthlyData1 ts)"
proof -
  let ?G = "monthlyData1 ts"
  let ?mk = "\<lambda>(m, d). \<lparr>income = income d, expense = expense d, balance = balance d,
                         month = m\<rparr>"
  let ?xs = "map ?mk (Object_entries ?G)"
  have G: "?G = foldl (group_step (\<lambda>t. month_key1 (date t))
                \<lparr>income = 0, expense = 0, balance = 0\<rparr>
                (\<lambda>d. d\<lparr>balance := income d - expense d\<rparr>)) [] ts"
    by (simp add: monthlyData1_def monthlyData_step1_group)
  have M: "formattedMonthlyData1 ts = sort_key month ?xs"
    by (simp add: formattedMonthlyData1_def sort_by_month)
  have months: "map month ?xs = map fst (Object_entries ?G)"
    by (simp add: case_prod_beta cong: map_cong)
  have "distinct (map fst ?G)"
    unfolding G by (rule group_keys_distinct)
  then have "distinct (map month ?xs)"
    unfolding months distinct_keys_Object_entries .
  then have sorted: "sorted_wrt (<) (map month (formattedMonthlyData1 ts))"
    unfolding M by (rule strict_sorted_sort_key)
  have setM: "set (formattedMonthlyData1 ts) = set ?xs"
    unfolding M by (simp only: set_sort)
  have "set (map month (formattedMonthlyData1 ts)) = set (map month ?xs)"
    by (simp only: set_map setM)
  also have "\<dots> = set (map fst ?G)"
    unfolding months by (simp only: set_map set_Object_entries)
  also have "\<dots> = (\<lambda>t. month_key1 (date t)) ` set ts"
    unfolding G group_keys by (auto simp: month_key1_plain)
  finally have keys: "set (map month (formattedMonthlyData1 ts)) =
      (\<lambda>t. month_key1 (date t)) ` set ts" .
  have recs: "income r = amounts_of (\<lambda>t. month_key1 (date t) = month r \<and> is_income t) ts
          \<and> expense r = amounts_of (\<lambda>t. month_key1 (date t) = month r \<and> \<not> is_income t) ts
          \<and> balance r = income r - expense r"
    if "r \<in> set (formattedMonthlyData1 ts)" for r
  proof -
    from that obtain m d where md: "(m, d) \<in> set ?G" and r: "r = ?mk (m, d)"
      unfolding setM by auto
    have "balance d = income d - expense d"
      using balanced_monthlyData1 [of ts] md by (auto simp: balanced_def)
    moreover have "income d = amounts_of (\<lambda>t. month_key1 (date t) = m \<and> is_income t) ts"
      by (rule group_entry_sums(1) [OF _ _ _ _ md [unfolded G]]) simp_all
    moreover have "expense d = amounts_of (\<lambda>t. month_key1 (date t) = m \<and> \<not> is_income t) ts"
      by (rule group_entry_sums(2) [OF _ _ _ _ md [unfolded G]]) simp_all
    ultimately show ?thesis
      by (simp add: r)
  qed
  show ?thesis
    unfolding monthly_series_by_def using sorted keys recs by blast
qed

lemma monthly_series_by2:
  "monthly_series_by (\<lambda>t. \<not> is_income t) (month_key2 tza) ts (monthlyData2 tza ts)"
proof -
  let ?G = "monthlyStats tza ts"
  let ?mk = "\<lambda>(m, d). \<lparr>income = income d, expense = expense d,
                         balance = income d - expense d, month = m\<rparr>"
  let ?es = "sort_key fst (Object_entries ?G)"
  have G: "?G = foldl (group_step (\<lambda>t. month_key2 tza (date t))
                \<lparr>income = 0, expense = 0\<rparr> (\<lambda>d. d)) [] ts"
    by (simp add: monthlyStats_def monthlyStats_step_group)
  have M: "monthlyData2 tza ts = map ?mk ?es"
    by (simp add: monthlyData2_def sort_by_key)
  have months: "map month (monthlyData2 tza ts) = map fst ?es"
    unfolding M by (simp add: case_prod_beta cong: map_cong)
  have "distinct (map fst ?G)"
    unfolding G by (rule group_keys_distinct)
  then have "distinct (map fst (Object_entries ?G))"
    unfolding distinct_keys_Object_entries .
  then have sorted: "sorted_wrt (<) (map month (monthlyData2 tza ts))"
    unfolding months by (rule strict_sorted_sort_key)
  have setE: "set ?es = set ?G"
    by (simp only: set_sort set_Object_entries)
  have "set (map month (monthlyData2 tza ts)) = set (map fst ?G)"
    unfolding months by (simp only: set_map setE)
  also have "\<dots> = (\<lambda>t. month_key2 tza (date t)) ` set ts"
    unfolding G group_keys by (auto simp: month_key2_plain)
  finally have keys: "set (map month (monthlyData2 tza ts)) =
      (\<lambda>t. month_key2 tza (date t)) ` set ts" .
  have recs: "income r = amounts_of (\<lambda>t. month_key2 tza (date t) = month r \<and> is_income t) ts
          \<and> expense r = amounts_of (\<lambda>t. month_key2 tza (date t) = month r \<and> \<not> is_income t) ts
          \<and> balance r = income r - expense r"
    if "r \<in> set (monthlyData2 tza ts)" for r
  proof -
    from that obtain m d where md: "(m, d) \<in> set ?G" and r: "r = ?mk (m, d)"
      unfolding M set_map setE by auto
    have "income d = amounts_of (\<lambda>t. month_key2 tza (date t) = m \<and> is_income t) ts"
      by (rule group_entry_sums(1) [OF _ _ _ _ md [unfolded G]]) simp_all
    moreover have "expense d = amounts_of (\<lambda>t. month_key2 tza (date t) = m \<and> \<not> is_income t) ts"
      by (rule group_entry_sums(2) [OF _ _ _ _ md [unfolded G]]) simp_all
    ultimately show ?thesis
      by (simp add: r)
  qed
  show ?thesis
    unfolding monthly_series_by_def using sorted keys recs by blast
qed

lemma monthly_series_by_enum:
  assumes "list_all type_in_enum ts" and "monthly_series_by (\<lambda>t. \<not> is_income t) key ts M"
  shows "monthly_series_ok key ts M"
  using assms(2) unfolding monthly_series_by_def monthly_series_ok_def
  by (simp add: keyed_not_income_is_expense [OF assms(1)])

lemma monthly_series_ok1:
  "list_all type_in_enum ts \<Longrightarrow> monthly_series_ok month_key1 ts (formattedMonthlyData1 ts)"
  by (rule monthly_series_by_enum [OF _ monthly_series_by1])

lemma monthly_series_ok2:
  "list_all type_in_enum ts \<Longrightarrow>
     monthly_series_ok (month_key2 tza) ts (monthlyData2 tza ts)"
  by (rule monthly_series_by_enum [OF _ monthly_series_by2])

subsection \<open>The response of the second implementation\<close>

lemma stats_literal2_heap:
  "stats_literal2 tza ts =
     (\<lparr>lit_summary = summary ts,
       lit_monthlyData = monthlyData2 tza ts,
       lit_categoryData = 0,
       lit_topCategories = 1,
       lit_monthlyTrend =
         map (\<lambda>data. \<lparr>t_month = month data, t_balance = balance data\<rparr>) (monthlyData2 tza ts)\<rparr>,
      [Array_sort (\<lambda>a b. total b - total a) (categoryData2 ts),
       take 5 (Array_sort (\<lambda>a b. total b - total a) (categoryData2 ts))])"
  by (simp add: stats_literal2_def alloc_def sort_in_place_def Array_slice_def Let_def)

lemma res_summary2 [simp]: "res_summary (stats_body2 tza ts) = summary ts"
  by (simp add: stats_body2_def res_json2_def stats_literal2_heap)

lemma res_monthlyData2 [simp]: "res_monthlyData (stats_body2 tza ts) = monthlyData2 tza ts"
  by (simp add: stats_body2_def res_json2_def stats_literal2_heap)

lemma res_categoryData2:
  "res_categoryData (stats_body2 tza ts) =
     Array_sort (\<lambda>a b. total b - total a) (categoryData2 ts)"
  by (simp add: stats_body2_def res_json2_def stats_literal2_heap)

lemma res_topCategories2:
  "res_topCategories (stats_body2 tza ts) =
     take 5 (Array_sort (\<lambda>a b. total b - total a) (categoryData2 ts))"
  by (simp add: stats_body2_def res_json2_def stats_literal2_heap)

lemma sorted_by_total:
  "sorted_wrt (\<lambda>a b. total b \<le> total a) (Array_sort (\<lambda>a b. total b - total a) xs)"
proof -
  have "sorted (map (\<lambda>r. - total r) (sort_key (\<lambda>r. - total r) xs))"
    by (rule sorted_sort_key)
  then show ?thesis
    by (simp add: sort_by_total sorted_map)
qed

lemma mset_sort_by_total [simp]:
  "mset (Array_sort (\<lambda>a b. total b - total a) xs) = mset xs"
  by (simp add: sort_by_total)

lemma res1_monthlyData [simp]: "res1_monthlyData (stats_body1 ts) = formattedMonthlyData1 ts"
  by (simp add: stats_body1_def)

lemma example_types: "list_all type_in_enum example_transactions"
  by (simp add: example_transactions_def example_txn_def type_in_enum_def)

lemma example_monthly1:
  "formattedMonthlyData1 example_transactions =
     [\<lparr>income = 100, expense = 40, balance = 60, month = ''2024-01''\<rparr>,
      \<lparr>income = 0, expense = 10, balance = - 10, month = ''2024-02''\<rparr>]"
  by code_simp

lemma example_monthly2:
  "monthlyData2 (\<lambda>t. 0) example_transactions =
     [\<lparr>income = 100, expense = 40, balance = 60, month = ''2024-01''\<rparr>,
      \<lparr>income = 0, expense = 10, balance = - 10, month = ''2024-02''\<rparr>]"
  by code_simp



text \<open>
  An array of category records that is not in descending order of \<open>total\<close> when it is
  created, and the same array in the response.
\<close>

lemma example_categoryData_created:
  "categoryData2 example_transactions =
     [\<lparr>income = 100, expense = 0, r_category = ''salary'', total = 100\<rparr>,
      \<lparr>income = 0, expense = 50, r_category = ''food'', total = 50\<rparr>]
   \<and> categoryData2 (rev example_transactions) =
     [\<lparr>income = 0, expense = 50, r_category = ''food'', total = 50\<rparr>,
      \<lparr>income = 100, expense = 0, r_category = ''salary'', total = 100\<rparr>]
   \<and> res_categoryData (stats_body2 (\<lambda>t. 0) (rev example_transactions)) =
     [\<lparr>income = 100, expense = 0, r_category = ''salary'', total = 100\<rparr>,
      \<lparr>income = 0, expense = 50, r_category = ''food'', total = 50\<rparr>]"
  by code_simp

text \<open>
  C10. In the response of the second implementation the array \<open>categoryData\<close> is in
  descending order of \<open>total\<close>, whatever was fetched: the literal's field refers to the
  array that \<^verbatim>\<open>sort\<close> rearranges in place for \<open>topCategories\<close>, and \<open>topCategories\<close> is
  the copy of its first five elements. The records are those the array was created
  with.
\<close>

theorem categoryData_sorted_in_response:
  "sorted_wrt (\<lambda>a b. total b \<le> total a) (res_categoryData (stats_body2 tza ts))
   \<and> res_topCategories (stats_body2 tza ts) = take 5 (res_categoryData (stats_body2 tza ts))
   \<and> mset (res_categoryData (stats_body2 tza ts)) = mset (categoryData2 ts)"
  by (simp add: res_categoryData2 res_topCategories2 sorted_by_total)

subsection \<open>Category breakdown\<close>

lemma res1_categoryData [simp]:
  "res1_categoryData (stats_body1 ts) = formattedCategoryData1 ts"
  by (simp add: stats_body1_def)

lemma categoryStats_group:
  "categoryStats ts = foldl (group_step category \<lparr>income = 0, expense = 0\<rparr> (\<lambda>d. d)) [] ts"
  by (simp add: categoryStats_def categoryStats_step_group)

lemma plain_categories_keys:
  "plain_categories ts \<Longrightarrow>
     {category t |t. t \<in> set ts \<and> \<not> inherited (category t)} = category ` set ts"
  by (auto simp: plain_categories_def list_all_iff)

lemma category_breakdown_ok2:
  assumes "list_all type_in_enum ts" and "plain_categories ts"
  shows "category_breakdown_ok ts (res_categoryData (stats_body2 tza ts))"
proof -
  let ?G = "categoryStats ts"
  let ?mk = "\<lambda>(c, d). \<lparr>income = income d, expense = expense d, r_category = c,
                         total = income d + expense d\<rparr>"
  let ?C = "res_categoryData (stats_body2 tza ts)"
  have G: "?G = foldl (group_step category \<lparr>income = 0, expense = 0\<rparr> (\<lambda>d. d)) [] ts"
    by (rule categoryStats_group)
  have msetC: "mset ?C = mset (map ?mk (Object_entries ?G))"
    by (simp add: res_categoryData2 categoryData2_def)
  have cats: "map r_category (map ?mk (Object_entries ?G)) = map fst (Object_entries ?G)"
    by (simp add: case_prod_beta cong: map_cong)
  have "mset (map r_category ?C) = mset (map r_category (map ?mk (Object_entries ?G)))"
    unfolding mset_map msetC ..
  then have msetK: "mset (map r_category ?C) = mset (map fst ?G)"
    unfolding cats by (simp only: mset_map mset_Object_entries)
  have "distinct (map fst ?G)"
    unfolding G by (rule group_keys_distinct)
  then have dist: "distinct (map r_category ?C)"
    using msetK mset_eq_imp_distinct_iff by blast
  have "set (map r_category ?C) = set (map fst ?G)"
    using msetK by (rule mset_eq_setD)
  also have "\<dots> = category ` set ts"
    unfolding G group_keys using assms(2) by (rule plain_categories_keys)
  finally have keys: "set (map r_category ?C) = category ` set ts" .
  have setC: "set ?C = set (map ?mk (Object_entries ?G))"
    using msetC by (rule mset_eq_setD)
  have recs: "income r = amounts_of (\<lambda>t. category t = r_category r \<and> is_income t) ts
          \<and> expense r = amounts_of (\<lambda>t. category t = r_category r \<and> is_expense t) ts
          \<and> total r = income r + expense r"
    if "r \<in> set ?C" for r
  proof -
    from that obtain c d where cd: "(c, d) \<in> set ?G" and r: "r = ?mk (c, d)"
      unfolding setC by auto
    have "income d = amounts_of (\<lambda>t. category t = c \<and> is_income t) ts"
      by (rule group_entry_sums(1) [OF _ _ _ _ cd [unfolded G]]) simp_all
    moreover have "expense d = amounts_of (\<lambda>t. category t = c \<and> \<not> is_income t) ts"
      by (rule group_entry_sums(2) [OF _ _ _ _ cd [unfolded G]]) simp_all
    ultimately show ?thesis
      using assms(1) by (simp add: r keyed_not_income_is_expense)
  qed
  have zero_inc: "amounts_of (\<lambda>t. category t = c \<and> is_income t) ts = 0"
    if "list_all (\<lambda>t. category t = c \<longrightarrow> is_expense t) ts" for c
  proof -
    have "filter (\<lambda>t. category t = c \<and> is_income t) ts = []"
      using that by (auto simp: filter_empty_conv list_all_iff is_income_def is_expense_def)
    then show ?thesis by (simp add: amounts_of_def)
  qed
  have zero_exp: "amounts_of (\<lambda>t. category t = c \<and> is_expense t) ts = 0"
    if "list_all (\<lambda>t. category t = c \<longrightarrow> is_income t) ts" for c
  proof -
    have "filter (\<lambda>t. category t = c \<and> is_expense t) ts = []"
      using that by (auto simp: filter_empty_conv list_all_iff is_income_def is_expense_def)
    then show ?thesis by (simp add: amounts_of_def)
  qed
  show ?thesis
    unfolding category_breakdown_ok_def
  proof (intro conjI ballI impI)
    show "distinct (map r_category ?C)" by (rule dist)
    show "set (map r_category ?C) = category ` set ts" by (rule keys)
  next
    fix r assume r: "r \<in> set ?C"
    show "income r = amounts_of (\<lambda>t. category t = r_category r \<and> is_income t) ts"
      using recs [OF r] by blast
    show "expense r = amounts_of (\<lambda>t. category t = r_category r \<and> is_expense t) ts"
      using recs [OF r] by blast
    show "total r = income r + expense r"
      using recs [OF r] by blast
    show "income r = 0"
      if "list_all (\<lambda>t. category t = r_category r \<longrightarrow> is_expense t) ts"
      using recs [OF r] zero_inc [OF that] by simp
    show "expense r = 0"
      if "list_all (\<lambda>t. category t = r_category r \<longrightarrow> is_income t) ts"
      using recs [OF r] zero_exp [OF that] by simp
  qed
qed

lemma proto_inherited: "inherited ''__proto__''"
  by (simp add: inherited_def Object_prototype_keys_def)

lemma categoryData_step1_plain:
  assumes "\<not> inherited (category t)"
  shows "categoryData_step1 acc t =
           obj_set acc (category t) (case map_of acc (category t) of
                 Some (Num n) \<Rightarrow> Num (n + amount t)
               | Some Str \<Rightarrow> Str
               | None \<Rightarrow> Num (amount t))"
  using assms proto_inherited
  by (auto simp: categoryData_step1_def Let_def split: option.splits jsval.splits)

lemma all_num_map_of: "all_num acc \<Longrightarrow> map_of acc k \<noteq> Some Str"
  by (force simp: all_num_def list_all_iff dest: map_of_SomeD)

lemma all_num_obj_set:
  "all_num acc \<Longrightarrow> v \<noteq> Str \<Longrightarrow> all_num (obj_set acc k v)"
  by (auto simp: all_num_def list_all_iff dest!: set_obj_set)

lemma all_num_step1:
  assumes "all_num acc" and "\<not> inherited (category t)"
  shows "all_num (categoryData_step1 acc t)"
  using assms all_num_map_of [OF assms(1), of "category t"]
  by (auto simp: categoryData_step1_plain intro!: all_num_obj_set
      split: option.splits jsval.splits)

lemma num_at_step1:
  assumes "all_num acc" and "\<not> inherited (category t)"
  shows "num_at (categoryData_step1 acc t) k =
           num_at acc k + (if category t = k then amount t else 0)"
  using assms all_num_map_of [OF assms(1), of "category t"]
  by (auto simp: categoryData_step1_plain num_at_def num_of_def map_of_obj_set
      split: option.splits jsval.splits)

lemma map_fst_step1:
  assumes "\<not> inherited (category t)"
  shows "map fst (categoryData_step1 acc t) =
           (if category t \<in> set (map fst acc) then map fst acc
            else map fst acc @ [category t])"
  using assms by (simp add: categoryData_step1_plain map_fst_obj_set)

lemma foldl_step1:
  assumes "all_num acc" and "distinct (map fst acc)" and "plain_categories es"
  shows "all_num (foldl categoryData_step1 acc es)
       \<and> distinct (map fst (foldl categoryData_step1 acc es))
       \<and> set (map fst (foldl categoryData_step1 acc es)) = set (map fst acc) \<union> category ` set es
       \<and> (\<forall>k. num_at (foldl categoryData_step1 acc es) k =
                 num_at acc k + amounts_of (\<lambda>t. category t = k) es)"
  using assms
proof (induction es arbitrary: acc)
  case Nil
  then show ?case by simp
next
  case (Cons t es)
  have plain: "\<not> inherited (category t)" and rest: "plain_categories es"
    using Cons.prems(3) by (simp_all add: plain_categories_def)
  have 1: "all_num (categoryData_step1 acc t)"
    using Cons.prems(1) plain by (rule all_num_step1)
  have 2: "distinct (map fst (categoryData_step1 acc t))"
    using Cons.prems(2) by (simp add: map_fst_step1 [OF plain])
  have "set (map fst (categoryData_step1 acc t)) = insert (category t) (set (map fst acc))"
    by (auto simp: map_fst_step1 [OF plain])
  then have 3: "fst ` set (categoryData_step1 acc t) = insert (category t) (fst ` set acc)"
    by simp
  from Cons.IH [OF 1 2 rest] show ?case
    by (simp add: 3 num_at_step1 [OF Cons.prems(1) plain] amounts_of_Cons Un_assoc)
qed

lemma amounts_of_filter:
  "amounts_of P (filter Q ts) = amounts_of (\<lambda>t. P t \<and> Q t) ts"
  by (simp add: amounts_of_def conj_commute)

lemma plain_categories_filter:
  "plain_categories ts \<Longrightarrow> plain_categories (filter Q ts)"
  by (simp add: plain_categories_def list_all_iff)

lemma categoryData1_entries:
  assumes "plain_categories ts"
  shows "distinct (map fst (categoryData1 ts))"
    and "set (map fst (categoryData1 ts)) = category ` set (filter is_expense ts)"
    and "(c, v) \<in> set (categoryData1 ts) \<Longrightarrow>
           v = Num (amounts_of (\<lambda>t. category t = c \<and> is_expense t) ts)"
proof -
  let ?es = "filter (\<lambda>t. type t = ''expense'') ts"
  have es: "?es = filter is_expense ts"
    by (rule filter_cong) (simp_all add: is_expense_def)
  have "all_num []" and "distinct (map fst ([] :: jsval obj))" and "plain_categories ?es"
    by (simp_all add: all_num_def plain_categories_filter assms)
  from foldl_step1 [OF this]
  have all: "all_num (categoryData1 ts)
       \<and> distinct (map fst (categoryData1 ts))
       \<and> set (map fst (categoryData1 ts)) = category ` set ?es
       \<and> (\<forall>k. num_at (categoryData1 ts) k = amounts_of (\<lambda>t. category t = k) ?es)"
    unfolding categoryData1_def by (simp add: num_at_def)
  show d: "distinct (map fst (categoryData1 ts))"
    using all by blast
  show "set (map fst (categoryData1 ts)) = category ` set (filter is_expense ts)"
    using all unfolding es by simp
  show "v = Num (amounts_of (\<lambda>t. category t = c \<and> is_expense t) ts)"
    if cv: "(c, v) \<in> set (categoryData1 ts)"
  proof -
    have m: "map_of (categoryData1 ts) c = Some v"
      using d cv by simp
    have "v \<noteq> Str"
      using all all_num_map_of m by blast
    moreover have "num_at (categoryData1 ts) c =
        amounts_of (\<lambda>t. category t = c \<and> is_expense t) ts"
      using all unfolding es by (simp add: amounts_of_filter)
    then have "num_of v = amounts_of (\<lambda>t. category t = c \<and> is_expense t) ts"
      by (simp add: num_at_def m)
    ultimately show ?thesis
      by (cases v) (simp_all add: num_of_def)
  qed
qed

lemma expense_breakdown_ok1:
  assumes "plain_categories ts"
  shows "expense_breakdown_ok ts (res1_categoryData (stats_body1 ts))"
proof -
  let ?H = "categoryData1 ts"
  let ?mk = "\<lambda>(c, e). \<lparr>e_category = c, e_expense = e\<rparr>"
  have C: "res1_categoryData (stats_body1 ts) = map ?mk (Object_entries ?H)"
    by (simp add: formattedCategoryData1_def)
  have cats: "map e_category (map ?mk (Object_entries ?H)) = map fst (Object_entries ?H)"
    by (simp add: case_prod_beta cong: map_cong)
  have dist: "distinct (map e_category (map ?mk (Object_entries ?H)))"
    unfolding cats distinct_keys_Object_entries
    using assms by (rule categoryData1_entries(1))
  have keys: "set (map e_category (map ?mk (Object_entries ?H))) =
                category ` set (filter is_expense ts)"
    unfolding cats using categoryData1_entries(2) [OF assms]
    by (simp only: set_map set_Object_entries)
  have recs: "e_expense r = Num (amounts_of (\<lambda>t. category t = e_category r \<and> is_expense t) ts)"
    if "r \<in> set (map ?mk (Object_entries ?H))" for r
  proof -
    from that obtain c v where cv: "(c, v) \<in> set ?H" and r: "r = ?mk (c, v)"
      by auto
    show ?thesis
      using categoryData1_entries(3) [OF assms cv] by (simp add: r)
  qed
  show ?thesis
    unfolding expense_breakdown_ok_def C using dist keys recs by blast
qed

lemma example_plain: "plain_categories example_transactions"
  by code_simp

lemma example_categories1:
  "formattedCategoryData1 example_transactions = [\<lparr>e_category = ''food'', e_expense = Num 50\<rparr>]"
  by code_simp

lemma example_categories2:
  "res_categoryData (stats_body2 (\<lambda>t. 0) example_transactions) =
     [\<lparr>income = 100, expense = 0, r_category = ''salary'', total = 100\<rparr>,
      \<lparr>income = 0, expense = 50, r_category = ''food'', total = 50\<rparr>]"
  by code_simp




subsection \<open>Sums over all records\<close>

lemma obj_sum_Nil [simp]: "obj_sum g [] = 0"
  by (simp add: obj_sum_def)

lemma obj_sum_Cons [simp]: "obj_sum g ((k, d) # acc) = g d + obj_sum g acc"
  by (simp add: obj_sum_def)

lemma obj_sum_append [simp]: "obj_sum g (acc @ acc') = obj_sum g acc + obj_sum g acc'"
  by (simp add: obj_sum_def)

lemma obj_sum_as_mset:
  "obj_sum g acc = sum_mset (image_mset (\<lambda>p. g (snd p)) (mset acc))"
  unfolding obj_sum_def by (simp only: mset_map sum_mset_sum_list [symmetric])

lemma obj_sum_mset: "mset acc = mset acc' \<Longrightarrow> obj_sum g acc = obj_sum g acc'"
  by (simp only: obj_sum_as_mset)

lemma obj_sum_Object_entries [simp]: "obj_sum g (Object_entries acc) = obj_sum g acc"
  by (rule obj_sum_mset) simp

lemma has_own_Nil [simp]: "\<not> has_own [] k"
  by (simp add: has_own_def)

lemma has_own_Cons [simp]: "has_own ((k', v) # acc) k = (k' = k \<or> has_own acc k)"
  by (auto simp: has_own_def)

lemma obj_modify_not_own: "\<not> has_own acc k \<Longrightarrow> obj_modify acc k f = acc"
  by (induction acc) auto

lemma obj_set_not_own: "\<not> has_own acc k \<Longrightarrow> obj_set acc k v = acc @ [(k, v)]"
  by (induction acc) auto

lemma obj_sum_obj_modify:
  assumes "has_own acc k" and "\<And>d. g (f d) = g d + a"
  shows "obj_sum g (obj_modify acc k f) = obj_sum g acc + a"
  using assms(1) by (induction acc) (auto simp: assms(2))

lemma has_own_obj_modify [simp]: "has_own (obj_modify acc k f) k' = has_own acc k'"
  by (simp add: has_own_def)

lemma obj_sum_group_step:
  assumes "g z = 0" and "\<not> inherited (key t)"
    and "\<And>d. g (post (d\<lparr>income := income d + amount t\<rparr>)) = g d + a"
    and "\<And>d. g (post (d\<lparr>expense := expense d + amount t\<rparr>)) = g d + b"
  shows "obj_sum g (group_step key z post acc t) =
           obj_sum g acc + (if is_income t then a else b)"
proof (cases "has_own acc (key t)")
  case True
  have step: "group_step key z post acc t =
      obj_modify acc (key t)
        (if is_income t then (\<lambda>d. post (d\<lparr>income := income d + amount t\<rparr>))
         else (\<lambda>d. post (d\<lparr>expense := expense d + amount t\<rparr>)))"
    using True
    by (simp add: group_step_def Let_def truthy_at_def obj_modify_twice is_income_def)
  show ?thesis
    unfolding step using assms(3,4)
    by (simp add: obj_sum_obj_modify [OF True])
next
  case False
  have own: "has_own (acc @ [(key t, z)]) (key t)"
    by (simp add: has_own_def)
  have step: "group_step key z post acc t =
      obj_modify (acc @ [(key t, z)]) (key t)
        (if is_income t then (\<lambda>d. post (d\<lparr>income := income d + amount t\<rparr>))
         else (\<lambda>d. post (d\<lparr>expense := expense d + amount t\<rparr>)))"
    using False assms(2)
    by (simp add: group_step_def Let_def truthy_at_def obj_modify_twice obj_set_not_own
        is_income_def)
  show ?thesis
    unfolding step using assms(1,3,4)
    by (simp add: obj_sum_obj_modify [OF own])
qed

lemma obj_sum_foldl_group_step:
  assumes "g z = 0"
    and "\<And>d x. g (post (d\<lparr>income := income d + x\<rparr>)) = g d + (if inc then x else 0)"
    and "\<And>d x. g (post (d\<lparr>expense := expense d + x\<rparr>)) = g d + (if inc then 0 else x)"
  shows "list_all (\<lambda>t. \<not> inherited (key t)) ts \<Longrightarrow>
         obj_sum g (foldl (group_step key z post) acc ts) =
           obj_sum g acc + amounts_of (\<lambda>t. is_income t = inc) ts"
proof (induction ts arbitrary: acc)
  case Nil
  then show ?case by simp
next
  case (Cons t ts)
  have plain: "\<not> inherited (key t)" and rest: "list_all (\<lambda>t. \<not> inherited (key t)) ts"
    using Cons.prems by simp_all
  have "obj_sum g (group_step key z post acc t) =
          obj_sum g acc + (if is_income t then (if inc then amount t else 0)
                           else (if inc then 0 else amount t))"
    using obj_sum_group_step [of g z key t post "if inc then amount t else 0"
        "if inc then 0 else amount t" acc] assms plain
    by simp
  with Cons.IH [OF rest, of "group_step key z post acc t"] show ?case
    by (simp add: amounts_of_Cons)
qed

lemma sum_list_map_mset:
  assumes "mset xs = mset ys"
  shows "sum_list (map f xs) = (sum_list (map f ys) :: rat)"
proof -
  have "sum_mset (mset (map f xs)) = sum_mset (mset (map f ys))"
    by (simp only: mset_map assms)
  then show ?thesis
    by (simp only: sum_mset_sum_list)
qed

lemma obj_sum_add:
  "obj_sum (\<lambda>d. g d + h d) acc = obj_sum g acc + obj_sum h acc"
  by (simp add: obj_sum_def sum_list_addf)

lemma summary_sum:
  "totalIncome (summary ts) + totalExpense (summary ts) =
     amounts_of is_income ts + amounts_of (\<lambda>t. \<not> is_income t) ts"
  by (simp add: summary_totalIncome summary_totalExpense)

lemma group_total:
  assumes "list_all (\<lambda>t. \<not> inherited (key t)) ts"
    and "income z = 0" and "expense z = 0"
    and "\<And>d. income (post d) = income d" and "\<And>d. expense (post d) = expense d"
  shows "obj_sum (\<lambda>d. income d + expense d) (foldl (group_step key z post) [] ts) =
           amounts_of is_income ts + amounts_of (\<lambda>t. \<not> is_income t) ts"
proof -
  have "obj_sum income (foldl (group_step key z post) [] ts) =
          obj_sum income [] + amounts_of (\<lambda>t. is_income t = True) ts"
    using obj_sum_foldl_group_step [of income z post True key ts "[]"] assms by simp
  moreover have "obj_sum expense (foldl (group_step key z post) [] ts) =
          obj_sum expense [] + amounts_of (\<lambda>t. is_income t = False) ts"
    using obj_sum_foldl_group_step [of expense z post False key ts "[]"] assms by simp
  ultimately show ?thesis
    by (simp add: obj_sum_add)
qed

lemma category_total2:
  assumes "plain_categories ts"
  shows "sum_list (map total (res_categoryData (stats_body2 tza ts))) =
           totalIncome (summary ts) + totalExpense (summary ts)"
proof -
  let ?mk = "\<lambda>(c, d). \<lparr>income = income d, expense = expense d, r_category = c,
                         total = income d + expense d\<rparr>"
  have "sum_list (map total (res_categoryData (stats_body2 tza ts))) =
          sum_list (map total (map ?mk (Object_entries (categoryStats ts))))"
    by (rule sum_list_map_mset) (simp add: res_categoryData2 categoryData2_def)
  also have "\<dots> = obj_sum (\<lambda>d. income d + expense d) (Object_entries (categoryStats ts))"
    by (simp add: obj_sum_def case_prod_beta cong: map_cong)
  also have "\<dots> = amounts_of is_income ts + amounts_of (\<lambda>t. \<not> is_income t) ts"
    unfolding obj_sum_Object_entries categoryStats_group
    using assms by (intro group_total) (simp_all add: plain_categories_def)
  finally show ?thesis by (simp add: summary_sum)
qed

lemma monthly_total2:
  "sum_list (map (\<lambda>r. income r + expense r) (res_monthlyData (stats_body2 tza ts))) =
     totalIncome (summary ts) + totalExpense (summary ts)"
proof -
  let ?G = "monthlyStats tza ts"
  have "sum_list (map (\<lambda>r. income r + expense r) (res_monthlyData (stats_body2 tza ts))) =
          obj_sum (\<lambda>d. income d + expense d) (sort_key fst (Object_entries ?G))"
    by (simp add: monthlyData2_def sort_by_key obj_sum_def case_prod_beta cong: map_cong)
  also have "\<dots> = obj_sum (\<lambda>d. income d + expense d) ?G"
    by (rule obj_sum_mset) simp
  also have "\<dots> = amounts_of is_income ts + amounts_of (\<lambda>t. \<not> is_income t) ts"
    unfolding monthlyStats_def monthlyStats_step_group
    by (intro group_total) (simp_all add: month_key2_plain list_all_iff)
  finally show ?thesis by (simp add: summary_sum)
qed

lemma monthly_total1:
  "sum_list (map (\<lambda>r. income r + expense r) (res1_monthlyData (stats_body1 ts))) =
     totalIncome (summary ts) + totalExpense (summary ts)"
proof -
  let ?G = "monthlyData1 ts"
  let ?mk = "\<lambda>(m, d). \<lparr>income = income d, expense = expense d, balance = balance d,
                         month = m\<rparr>"
  have "sum_list (map (\<lambda>r. income r + expense r) (res1_monthlyData (stats_body1 ts))) =
          sum_list (map (\<lambda>r. income r + expense r) (map ?mk (Object_entries ?G)))"
    by (rule sum_list_map_mset) (simp add: formattedMonthlyData1_def sort_by_month)
  also have "\<dots> = obj_sum (\<lambda>d. income d + expense d) (Object_entries ?G)"
    by (simp add: obj_sum_def case_prod_beta cong: map_cong)
  also have "\<dots> = amounts_of is_income ts + amounts_of (\<lambda>t. \<not> is_income t) ts"
    unfolding obj_sum_Object_entries monthlyData1_def monthlyData_step1_group
    by (intro group_total) (simp_all add: month_key1_plain list_all_iff)
  finally show ?thesis by (simp add: summary_sum)
qed

lemma obj_sum_obj_set:
  "obj_sum g (obj_set acc k v) =
     obj_sum g acc - (case map_of acc k of None \<Rightarrow> 0 | Some d \<Rightarrow> g d) + g v"
  by (induction acc) auto

lemma obj_sum_step1:
  assumes "all_num acc" and "\<not> inherited (category t)"
  shows "obj_sum num_of (categoryData_step1 acc t) = obj_sum num_of acc + amount t"
  using assms all_num_map_of [OF assms(1), of "category t"]
  by (auto simp: categoryData_step1_plain obj_sum_obj_set num_of_def
      split: option.splits jsval.splits)

lemma obj_sum_foldl_step1:
  "all_num acc \<Longrightarrow> plain_categories es \<Longrightarrow>
     obj_sum num_of (foldl categoryData_step1 acc es) =
       obj_sum num_of acc + amounts_of (\<lambda>t. True) es"
proof (induction es arbitrary: acc)
  case Nil
  then show ?case by simp
next
  case (Cons t es)
  have plain: "\<not> inherited (category t)" and rest: "plain_categories es"
    using Cons.prems(2) by (simp_all add: plain_categories_def)
  have "all_num (categoryData_step1 acc t)"
    using Cons.prems(1) plain by (rule all_num_step1)
  from Cons.IH [OF this rest] show ?case
    by (simp add: obj_sum_step1 [OF Cons.prems(1) plain] amounts_of_Cons)
qed

lemma category_total1:
  assumes "list_all type_in_enum ts" and "plain_categories ts"
  shows "list_all (\<lambda>r. e_expense r \<noteq> Str) (res1_categoryData (stats_body1 ts))"
    and "sum_list (map (\<lambda>r. num_of (e_expense r)) (res1_categoryData (stats_body1 ts))) =
           totalExpense (summary ts)"
proof -
  let ?H = "categoryData1 ts"
  let ?es = "filter (\<lambda>t. type t = ''expense'') ts"
  have es: "?es = filter is_expense ts"
    by (rule filter_cong) (simp_all add: is_expense_def)
  have C: "res1_categoryData (stats_body1 ts) =
             map (\<lambda>(c, e). \<lparr>e_category = c, e_expense = e\<rparr>) (Object_entries ?H)"
    by (simp add: formattedCategoryData1_def)
  have "all_num []" and "distinct (map fst ([] :: jsval obj))" and plain: "plain_categories ?es"
    by (simp_all add: all_num_def plain_categories_filter assms)
  from foldl_step1 [OF this] have "all_num ?H"
    unfolding categoryData1_def by blast
  then show "list_all (\<lambda>r. e_expense r \<noteq> Str) (res1_categoryData (stats_body1 ts))"
    unfolding C by (auto simp: all_num_def list_all_iff)
  have "sum_list (map (\<lambda>r. num_of (e_expense r)) (res1_categoryData (stats_body1 ts))) =
          obj_sum num_of (Object_entries ?H)"
    unfolding C by (simp add: obj_sum_def case_prod_beta cong: map_cong)
  also have "\<dots> = amounts_of (\<lambda>t. True) ?es"
    unfolding obj_sum_Object_entries categoryData1_def
    using obj_sum_foldl_step1 [OF \<open>all_num []\<close> plain] by simp
  also have "\<dots> = amounts_of is_expense ts"
    unfolding es by (simp add: amounts_of_filter)
  also have "\<dots> = totalExpense (summary ts)"
    using assms(1) by (simp add: summary_totalExpense not_income_is_expense)
  finally show "sum_list (map (\<lambda>r. num_of (e_expense r)) (res1_categoryData (stats_body1 ts))) =
           totalExpense (summary ts)" .
qed

lemma res1_summary [simp]: "res1_summary (stats_body1 ts) = summary ts"
  by (simp add: stats_body1_def)

lemma example_summary:
  "summary example_transactions = \<lparr>totalIncome = 100, totalExpense = 50, netBalance = 50\<rparr>"
  by code_simp




subsection \<open>Fetch order\<close>

lemma amounts_of_mset:
  assumes "mset ts = mset ts'"
  shows "amounts_of P ts = amounts_of P ts'"
  unfolding amounts_of_def
proof (rule sum_list_map_mset)
  show "mset (filter P ts) = mset (filter P ts')"
    by (simp only: mset_filter assms)
qed

lemma summary_closed:
  "summary ts = \<lparr>totalIncome = amounts_of is_income ts,
                  totalExpense = amounts_of (\<lambda>t. \<not> is_income t) ts,
                  netBalance = amounts_of is_income ts - amounts_of (\<lambda>t. \<not> is_income t) ts\<rparr>"
  by (simp add: summary_def Let_def foldl_summary_step_income foldl_summary_step_expense)

lemma summary_mset: "mset ts = mset ts' \<Longrightarrow> summary ts = summary ts'"
  by (simp add: summary_closed amounts_of_mset [of ts ts'])

lemma monthly_series_by_unique:
  assumes M: "monthly_series_by E key ts M" and M': "monthly_series_by E key ts' M'"
    and perm: "mset ts = mset ts'"
  shows "M = M'"
proof -
  let ?F = "\<lambda>us k. \<lparr>income = amounts_of (\<lambda>t. key (date t) = k \<and> is_income t) us,
                     expense = amounts_of (\<lambda>t. key (date t) = k \<and> E t) us,
                     balance = amounts_of (\<lambda>t. key (date t) = k \<and> is_income t) us
                               - amounts_of (\<lambda>t. key (date t) = k \<and> E t) us,
                     month = k\<rparr>"
  have F: "?F ts = ?F ts'"
    by (intro ext) (simp add: amounts_of_mset [OF perm])
  have set_eq: "set ts = set ts'"
    using perm by (rule mset_eq_setD)
  have "sorted (map month M) \<and> distinct (map month M)"
    and "sorted (map month M') \<and> distinct (map month M')"
    using M M' by (simp_all add: monthly_series_by_def strict_sorted_iff)
  moreover have "set (map month M) = set (map month M')"
    using M M' set_eq by (simp add: monthly_series_by_def)
  ultimately have months: "map month M = map month M'"
    by (blast intro: sorted_distinct_set_unique)
  have "map (\<lambda>r. ?F ts (month r)) M = map (\<lambda>r. r) M"
    by (rule map_cong) (use M in \<open>simp_all add: monthly_series_by_def\<close>)
  then have 1: "M = map (?F ts) (map month M)"
    by (simp add: comp_def)
  have "map (\<lambda>r. ?F ts' (month r)) M' = map (\<lambda>r. r) M'"
    by (rule map_cong) (use M' in \<open>simp_all add: monthly_series_by_def\<close>)
  then have 2: "M' = map (?F ts') (map month M')"
    by (simp add: comp_def)
  show ?thesis
    by (subst 1, subst 2) (simp only: F months)
qed

lemma distinct_entries: "distinct (map fst acc) \<Longrightarrow> distinct acc"
  by (rule distinct_map [THEN iffD1, THEN conjunct1])

lemma categoryStats_set:
  "set (categoryStats ts) =
     (\<lambda>c. (c, \<lparr>income = amounts_of (\<lambda>t. category t = c \<and> is_income t) ts,
                expense = amounts_of (\<lambda>t. category t = c \<and> \<not> is_income t) ts\<rparr>))
       ` {category t |t. t \<in> set ts \<and> \<not> inherited (category t)}"
  (is "?L = ?f ` ?K")
proof (intro set_eqI iffI)
  fix p assume p: "p \<in> ?L"
  obtain c d where cd: "p = (c, d)" by (cases p)
  have G: "(c, d) \<in> set (foldl (group_step category \<lparr>income = 0, expense = 0\<rparr> (\<lambda>d. d)) [] ts)"
    using p unfolding cd categoryStats_group .
  have "c \<in> set (map fst (foldl (group_step category \<lparr>income = 0, expense = 0\<rparr> (\<lambda>d. d)) [] ts))"
    using G by force
  then have "c \<in> ?K"
    unfolding group_keys .
  moreover have "income d = amounts_of (\<lambda>t. category t = c \<and> is_income t) ts"
    by (rule group_entry_sums(1) [OF _ _ _ _ G]) simp_all
  moreover have "expense d = amounts_of (\<lambda>t. category t = c \<and> \<not> is_income t) ts"
    by (rule group_entry_sums(2) [OF _ _ _ _ G]) simp_all
  ultimately show "p \<in> ?f ` ?K"
    unfolding cd by (intro image_eqI [of _ _ c]) simp_all
next
  fix p assume "p \<in> ?f ` ?K"
  then obtain c where c: "c \<in> ?K" and p: "p = ?f c" by blast
  have "c \<in> set (map fst (categoryStats ts))"
    using c unfolding categoryStats_group group_keys .
  then obtain d where G: "(c, d) \<in> set (categoryStats ts)"
    by auto
  have G': "(c, d) \<in> set (foldl (group_step category \<lparr>income = 0, expense = 0\<rparr> (\<lambda>d. d)) [] ts)"
    using G unfolding categoryStats_group .
  have "income d = amounts_of (\<lambda>t. category t = c \<and> is_income t) ts"
    by (rule group_entry_sums(1) [OF _ _ _ _ G']) simp_all
  moreover have "expense d = amounts_of (\<lambda>t. category t = c \<and> \<not> is_income t) ts"
    by (rule group_entry_sums(2) [OF _ _ _ _ G']) simp_all
  ultimately have "p = (c, d)"
    unfolding p by simp
  then show "p \<in> ?L" using G by simp
qed

lemma categoryStats_mset:
  assumes "mset ts = mset ts'"
  shows "mset (categoryStats ts) = mset (categoryStats ts')"
proof -
  have "set ts = set ts'"
    using assms by (rule mset_eq_setD)
  then have "set (categoryStats ts) = set (categoryStats ts')"
    unfolding categoryStats_set by (simp add: amounts_of_mset [OF assms])
  moreover have "distinct (categoryStats ts)" and "distinct (categoryStats ts')"
    unfolding categoryStats_group by (rule distinct_entries, rule group_keys_distinct)+
  ultimately show ?thesis
    by (simp add: set_eq_iff_mset_eq_distinct)
qed

lemma categoryData2_mset:
  assumes "mset ts = mset ts'"
  shows "mset (categoryData2 ts) = mset (categoryData2 ts')"
  unfolding categoryData2_def mset_map mset_Object_entries categoryStats_mset [OF assms] ..

lemma categoryData1_set:
  assumes "plain_categories ts"
  shows "set (categoryData1 ts) =
     (\<lambda>c. (c, Num (amounts_of (\<lambda>t. category t = c \<and> is_expense t) ts)))
       ` category ` set (filter is_expense ts)"
  (is "?L = ?f ` ?K")
proof (intro set_eqI iffI)
  fix p assume p: "p \<in> ?L"
  obtain c v where cv: "p = (c, v)" by (cases p)
  have "c \<in> set (map fst (categoryData1 ts))"
    using p unfolding cv by force
  then have "c \<in> ?K"
    unfolding categoryData1_entries(2) [OF assms] .
  moreover have "v = Num (amounts_of (\<lambda>t. category t = c \<and> is_expense t) ts)"
    using categoryData1_entries(3) [OF assms] p unfolding cv .
  ultimately show "p \<in> ?f ` ?K"
    unfolding cv by blast
next
  fix p assume "p \<in> ?f ` ?K"
  then obtain c where c: "c \<in> ?K" and p: "p = ?f c" by blast
  have "c \<in> set (map fst (categoryData1 ts))"
    using c unfolding categoryData1_entries(2) [OF assms] .
  then obtain v where H: "(c, v) \<in> set (categoryData1 ts)"
    by auto
  then have "p = (c, v)"
    unfolding p using categoryData1_entries(3) [OF assms H] by simp
  then show "p \<in> ?L" using H by simp
qed

lemma plain_categories_mset:
  assumes "mset ts = mset ts'"
  shows "plain_categories ts = plain_categories ts'"
proof -
  have "set ts = set ts'"
    using assms by (rule mset_eq_setD)
  then show ?thesis
    by (simp add: plain_categories_def list_all_iff)
qed

lemma formattedCategoryData1_mset:
  assumes "mset ts = mset ts'" and "plain_categories ts"
  shows "mset (formattedCategoryData1 ts) = mset (formattedCategoryData1 ts')"
proof -
  have plain': "plain_categories ts'"
    using assms plain_categories_mset by blast
  have "mset (filter is_expense ts) = mset (filter is_expense ts')"
    by (simp only: mset_filter assms(1))
  then have "set (filter is_expense ts) = set (filter is_expense ts')"
    by (rule mset_eq_setD)
  then have "set (categoryData1 ts) = set (categoryData1 ts')"
    unfolding categoryData1_set [OF assms(2)] categoryData1_set [OF plain']
    by (simp add: amounts_of_mset [OF assms(1)])
  moreover have "distinct (categoryData1 ts)" and "distinct (categoryData1 ts')"
    using categoryData1_entries(1) [OF assms(2)] categoryData1_entries(1) [OF plain']
    by (simp_all add: distinct_entries)
  ultimately have "mset (categoryData1 ts) = mset (categoryData1 ts')"
    by (simp add: set_eq_iff_mset_eq_distinct)
  then show ?thesis
    unfolding formattedCategoryData1_def mset_map mset_Object_entries by simp
qed

lemma sort_key_unique:
  assumes "mset xs = mset ys" and "distinct (map f xs)"
  shows "sort_key f xs = sort_key f ys"
proof -
  let ?X = "sort_key f xs" and ?Y = "sort_key f ys"
  have mm: "mset (map f ?X) = mset (map f xs)" "mset (map f ?Y) = mset (map f xs)"
    by (simp_all only: mset_map mset_sort assms(1))
  have "distinct (map f ?X)"
    using mset_eq_imp_distinct_iff [OF mm(1)] assms(2) by simp
  moreover have "distinct (map f ?Y)"
    using mset_eq_imp_distinct_iff [OF mm(2)] assms(2) by simp
  moreover have "set (map f ?X) = set (map f ?Y)"
    by (rule mset_eq_setD) (simp only: mm)
  ultimately have keys: "map f ?X = map f ?Y"
    by (intro sorted_distinct_set_unique) (simp_all only: sorted_sort_key)
  have "set xs = set ys"
    using assms(1) by (rule mset_eq_setD)
  then have "set ?X \<union> set ?Y = set xs"
    by (simp only: set_sort Un_absorb)
  moreover have "inj_on f (set xs)"
    using assms(2) by (simp add: distinct_map)
  ultimately have "inj_on f (set ?X \<union> set ?Y)"
    by simp
  then show ?thesis
    using keys by (simp only: inj_on_map_eq_map)
qed

lemma res_monthlyTrend2:
  "res_monthlyTrend (stats_body2 tza ts) =
     map (\<lambda>data. \<lparr>t_month = month data, t_balance = balance data\<rparr>) (monthlyData2 tza ts)"
  by (simp add: stats_body2_def res_json2_def stats_literal2_heap)

lemma monthlyData2_mset:
  "mset ts = mset ts' \<Longrightarrow> monthlyData2 tza ts = monthlyData2 tza ts'"
  by (rule monthly_series_by_unique [OF monthly_series_by2 monthly_series_by2])

lemma formattedMonthlyData1_mset:
  "mset ts = mset ts' \<Longrightarrow> formattedMonthlyData1 ts = formattedMonthlyData1 ts'"
  by (rule monthly_series_by_unique [OF monthly_series_by1 monthly_series_by1])

lemma res_categoryData2_distinct_totals:
  assumes "mset ts = mset ts'"
    and "distinct (map total (res_categoryData (stats_body2 tza ts)))"
  shows "res_categoryData (stats_body2 tza ts) = res_categoryData (stats_body2 tza ts')"
proof -
  have "mset (map total (res_categoryData (stats_body2 tza ts))) =
          mset (map total (categoryData2 ts))"
    by (simp only: mset_map res_categoryData2 mset_sort_by_total)
  then have "distinct (map total (categoryData2 ts))"
    using assms(2) mset_eq_imp_distinct_iff by blast
  then have "distinct (map uminus (map total (categoryData2 ts)))"
    by (simp add: distinct_map inj_on_def)
  then have "distinct (map (\<lambda>r. - total r) (categoryData2 ts))"
    by (simp add: comp_def)
  with categoryData2_mset [OF assms(1)] show ?thesis
    unfolding res_categoryData2 sort_by_total by (rule sort_key_unique)
qed

lemma example_two_plain: "plain_categories example_two_categories"
  by code_simp

lemma example_two_categories2:
  "res_categoryData (stats_body2 (\<lambda>t. 0) example_two_categories) =
     [\<lparr>income = 0, expense = 40, r_category = ''food'', total = 40\<rparr>,
      \<lparr>income = 0, expense = 40, r_category = ''rent'', total = 40\<rparr>]"
  "res_categoryData (stats_body2 (\<lambda>t. 0) (rev example_two_categories)) =
     [\<lparr>income = 0, expense = 40, r_category = ''rent'', total = 40\<rparr>,
      \<lparr>income = 0, expense = 40, r_category = ''food'', total = 40\<rparr>]"
  by code_simp+

lemma example_two_categories1:
  "formattedCategoryData1 example_two_categories =
     [\<lparr>e_category = ''food'', e_expense = Num 40\<rparr>,
      \<lparr>e_category = ''rent'', e_expense = Num 40\<rparr>]"
  "formattedCategoryData1 (rev example_two_categories) =
     [\<lparr>e_category = ''rent'', e_expense = Num 40\<rparr>,
      \<lparr>e_category = ''food'', e_expense = Num 40\<rparr>]"
  by code_simp+



lemma example_rev_plain: "plain_categories (rev example_transactions)"
  by code_simp


end
